theory Spec2Isabelle
  imports Complex_Main "HOL-Library.Monad_Syntax"
begin

section \<open>Python values used by the page\<close>

text \<open>
  The page is the script \<^verbatim>\<open>deep_research_openai.py\<close>. A Python \<^verbatim>\<open>str\<close> is a sequence of
  Unicode code points, so it is modelled as a list of natural numbers; \<open>py\<close> turns an
  ASCII literal of the source into that form.
\<close>

type_synonym pystr = "nat list"

definition py :: "string \<Rightarrow> pystr" where
  "py s = map of_char s"

text \<open>
  A Python \<^verbatim>\<open>float\<close> is kept as the decimal numeral that \<^verbatim>\<open>repr\<close> prints for it (integer
  part and fraction digits): the script only stores and prints its float literals and
  never computes with them. \<open>float_value\<close> is the number such a numeral denotes.
\<close>

datatype pyfloat = Decimal nat "nat list"

fun dec_digits :: "nat \<Rightarrow> nat list" where
  "dec_digits n = (if n < 10 then [n] else dec_digits (n div 10) @ [n mod 10])"

declare dec_digits.simps [simp del]

definition digit_char :: "nat \<Rightarrow> nat" where
  "digit_char d = 48 + d"

fun float_repr :: "pyfloat \<Rightarrow> pystr" where
  "float_repr (Decimal w ds) = map digit_char (dec_digits w) @ [46] @ map digit_char ds"

fun float_value :: "pyfloat \<Rightarrow> rat" where
  "float_value (Decimal w ds) = of_nat w + foldr (\<lambda>d acc. (of_nat d + acc) / 10) ds 0"

text \<open>\<^verbatim>\<open>not query\<close>: a string is falsy exactly when it is empty.\<close>

definition py_not :: "pystr \<Rightarrow> bool" where
  "py_not s = (s = [])"

text \<open>
  \<^verbatim>\<open>datetime.now()\<close> is a naive datetime; \<^verbatim>\<open>isoformat()\<close> prints it as
  \<^verbatim>\<open>%04d-%02d-%02dT%02d:%02d:%02d\<close>, followed by \<^verbatim>\<open>.%06d\<close> when the microsecond
  field is not zero.
\<close>

record datetime =
  year :: nat
  month :: nat
  day :: nat
  hour :: nat
  minute :: nat
  second :: nat
  microsecond :: nat

definition zero_pad :: "nat \<Rightarrow> nat \<Rightarrow> pystr" where
  "zero_pad k n =
     (let ds = map digit_char (dec_digits n) in replicate (k - length ds) 48 @ ds)"

definition isoformat :: "datetime \<Rightarrow> pystr" where
  "isoformat d =
     zero_pad 4 (year d) @ py ''-'' @ zero_pad 2 (month d) @ py ''-'' @ zero_pad 2 (day d)
     @ py ''T'' @ zero_pad 2 (hour d) @ py '':'' @ zero_pad 2 (minute d) @ py '':''
     @ zero_pad 2 (second d)
     @ (if microsecond d = 0 then [] else py ''.'' @ zero_pad 6 (microsecond d))"

section \<open>The data model: findings and the research result\<close>

text \<open>
  The script stores one dict under \<^verbatim>\<open>st.session_state.results\<close>, with the fixed keys
  \<^verbatim>\<open>query\<close>, \<^verbatim>\<open>model\<close>, \<^verbatim>\<open>timestamp\<close>, \<^verbatim>\<open>findings\<close>; each finding is a dict with the
  keys \<^verbatim>\<open>title\<close>, \<^verbatim>\<open>content\<close>, \<^verbatim>\<open>relevance\<close>, \<^verbatim>\<open>source\<close>.
\<close>

record finding =
  title :: pystr
  content :: pystr
  relevance :: pyfloat
  source :: pystr

record research_result =
  query :: pystr
  model :: pystr
  timestamp :: pystr
  findings :: "finding list"

definition tiebreaker_finding :: finding where
  "tiebreaker_finding =
     \<lparr> title = py ''Tennis Tiebreaker Regulations'',
       content = py ''The Big 12 Conference employs a specific tiebreaker system in tennis matches. When two players are tied at 6-6 in a set, a tiebreaker game is played to determine the winner of the set. The first player to reach at least 7 points with a margin of 2 points wins the tiebreaker.'',
       relevance = Decimal 0 [9, 5],
       source = py ''Big 12 Tennis Rulebook'' \<rparr>"

definition statistics_finding :: finding where
  "statistics_finding =
     \<lparr> title = py ''Match Statistics Analysis'',
       content = py ''According to recent match statistics, tiebreakers occur in approximately 22% of Big 12 tennis sets. Teams with higher first-serve percentages tend to win 67% of tiebreakers, suggesting the importance of serve performance in these critical moments.'',
       relevance = Decimal 0 [8, 2],
       source = py ''XII-OS Analytics Database'' \<rparr>"

section \<open>JSON export: \<^verbatim>\<open>json.dumps(..., indent=2)\<close>\<close>

text \<open>
  The values the script hands to \<^verbatim>\<open>json.dumps\<close> are built from strings, floats, lists and
  dicts (a dict keeps its insertion order, so it is an association list).
\<close>

datatype pyval =
    PStr pystr
  | PFloat pyfloat
  | PList "pyval list"
  | PDict "(pystr \<times> pyval) list"

definition finding_dict :: "finding \<Rightarrow> pyval" where
  "finding_dict f =
     PDict [(py ''title'', PStr (title f)), (py ''content'', PStr (content f)),
            (py ''relevance'', PFloat (relevance f)), (py ''source'', PStr (source f))]"

definition result_dict :: "research_result \<Rightarrow> pyval" where
  "result_dict r =
     PDict [(py ''query'', PStr (query r)), (py ''model'', PStr (model r)),
            (py ''timestamp'', PStr (timestamp r)),
            (py ''findings'', PList (map finding_dict (findings r)))]"

text \<open>
  Strings are written by \<^verbatim>\<open>encode_basestring_ascii\<close> (\<^verbatim>\<open>ensure_ascii\<close> is on by default):
  the quote and the backslash get a backslash, the control characters
  \<^verbatim>\<open>\b \f \n \r \t\<close> their short escape, every other code point outside
  \<^verbatim>\<open>' '..'~'\<close> becomes \<^verbatim>\<open>\uXXXX\<close> (lower-case hex), as a surrogate pair from 0x10000 on.
\<close>

definition hex_digit :: "nat \<Rightarrow> nat" where
  "hex_digit d = (if d < 10 then 48 + d else 87 + d)"

definition u_escape :: "nat \<Rightarrow> pystr" where
  "u_escape n =
     [92, 117, hex_digit (n div 4096 mod 16), hex_digit (n div 256 mod 16),
      hex_digit (n div 16 mod 16), hex_digit (n mod 16)]"

definition escape_char :: "nat \<Rightarrow> pystr" where
  "escape_char c =
     (if c = 34 then [92, 34]
      else if c = 92 then [92, 92]
      else if c = 8 then [92, 98]
      else if c = 12 then [92, 102]
      else if c = 10 then [92, 110]
      else if c = 13 then [92, 114]
      else if c = 9 then [92, 116]
      else if 32 \<le> c \<and> c \<le> 126 then [c]
      else if c < 65536 then u_escape c
      else u_escape (55296 + (c - 65536) div 1024 mod 1024)
           @ u_escape (56320 + (c - 65536) mod 1024))"

definition encode_basestring_ascii :: "pystr \<Rightarrow> pystr" where
  "encode_basestring_ascii s = [34] @ concat (map escape_char s) @ [34]"

text \<open>
  With \<^verbatim>\<open>indent=2\<close> the item separator is a comma followed by a newline and the
  indentation of the current level, the key separator is a colon and a space, and an
  empty list or dict is written \<^verbatim>\<open>[]\<close> or \<^verbatim>\<open>{}\<close>.
\<close>

definition newline_indent :: "nat \<Rightarrow> pystr" where
  "newline_indent level = 10 # replicate (2 * level) 32"

fun iterencode :: "nat \<Rightarrow> pyval \<Rightarrow> pystr"
  and iterencode_list :: "nat \<Rightarrow> pyval list \<Rightarrow> pystr"
  and iterencode_dict :: "nat \<Rightarrow> (pystr \<times> pyval) list \<Rightarrow> pystr"
where
  "iterencode lvl (PStr s) = encode_basestring_ascii s"
| "iterencode lvl (PFloat x) = float_repr x"
| "iterencode lvl (PList vs) =
     (if vs = [] then py ''[]''
      else py ''['' @ newline_indent (Suc lvl) @ iterencode_list (Suc lvl) vs)"
| "iterencode lvl (PDict kvs) =
     (if kvs = [] then py ''{}''
      else py ''{'' @ newline_indent (Suc lvl) @ iterencode_dict (Suc lvl) kvs)"
| "iterencode_list lvl [] = newline_indent (lvl - 1) @ py '']''"
| "iterencode_list lvl (v # vs) =
     iterencode lvl v
     @ (if vs = [] then [] else py '','' @ newline_indent lvl)
     @ iterencode_list lvl vs"
| "iterencode_dict lvl [] = newline_indent (lvl - 1) @ py ''}''"
| "iterencode_dict lvl (kv # kvs) =
     encode_basestring_ascii (fst kv) @ py '': '' @ iterencode lvl (snd kv)
     @ (if kvs = [] then [] else py '','' @ newline_indent lvl)
     @ iterencode_dict lvl kvs"

definition dumps :: "pyval \<Rightarrow> pystr" where
  "dumps v = iterencode 0 v"

section \<open>The page script\<close>

text \<open>
  Streamlit runs the whole script once per interaction. One run takes the values the
  widgets return, the environment and the clock, and the value of
  \<^verbatim>\<open>st.session_state.results\<close> left by the previous run; it renders a sequence of display
  elements and leaves a new session value.
\<close>

datatype ai_model = Gpt_4o | Gpt_4 | Gpt_35_turbo

fun model_name :: "ai_model \<Rightarrow> pystr" where
  "model_name Gpt_4o = py ''gpt-4o''"
| "model_name Gpt_4 = py ''gpt-4''"
| "model_name Gpt_35_turbo = py ''gpt-3.5-turbo''"

datatype depth = Basic | Standard | Deep | Comprehensive

datatype domain = Tennis | Sports | Rules | History | Statistics

type_synonym date = "nat \<times> nat \<times> nat"

text \<open>
  An exception carries whether it is an instance of \<^verbatim>\<open>Exception\<close> (the class the two
  \<^verbatim>\<open>except\<close> clauses of the script name) and the text \<^verbatim>\<open>str(e)\<close> gives. Every call
  inside a \<^verbatim>\<open>try\<close> block of the script is a site that may raise; which ones do is part of
  the run's input.
\<close>

datatype exn = Exn (is_Exception: bool) (str: pystr)

datatype site =
    EnvironGet
  | KeyWarning
  | StoreResults
  | ShowSuccess
  | FindingExpander nat
  | FindingMarkdown nat
  | FindingCaption nat
  | ExportButton
  | ShowBalloons

record run_input =
  openai_key :: "pystr option"
  model_choice :: ai_model
  temperature :: pyfloat
  max_tokens :: int
  query_text :: pystr
  search_depth :: depth
  include_citations :: bool
  domains :: "domain list"
  date_range :: "date list"
  start_research :: bool
  export_clicked :: bool
  now :: datetime
  raises :: "site \<Rightarrow> exn option"

datatype elem =
    Title pystr
  | Header pystr
  | Markdown pystr
  | Caption pystr
  | Warning pystr
  | Error pystr
  | Success pystr
  | Expander pystr
  | DownloadButton pystr pystr pystr pystr
  | Balloons

text \<open>
  What a piece of the script leaves behind: the elements it rendered, the value of
  \<^verbatim>\<open>st.session_state.results\<close> and, when it raised, the exception. The effects made before a
  raise are kept, as Python keeps them.
\<close>

record outcome =
  rendered :: "elem list"
  results :: "research_result option"
  raised :: "exn option"

type_synonym step = "research_result option \<Rightarrow> outcome"

definition skip :: step where
  "skip st = \<lparr> rendered = [], results = st, raised = None \<rparr>"

definition raise :: "exn \<Rightarrow> step" where
  "raise e st = \<lparr> rendered = [], results = st, raised = Some e \<rparr>"

definition render :: "elem \<Rightarrow> step" where
  "render el st = \<lparr> rendered = [el], results = st, raised = None \<rparr>"

definition st_call :: "run_input \<Rightarrow> site \<Rightarrow> elem \<Rightarrow> step" where
  "st_call i c el st = (case raises i c of Some e \<Rightarrow> raise e st | None \<Rightarrow> render el st)"

text \<open>Sequencing: the next statement runs from the session the previous one left.\<close>

definition and_then :: "outcome \<Rightarrow> step \<Rightarrow> outcome" where
  "and_then a f = (let b = f (results a) in b\<lparr>rendered := rendered a @ rendered b\<rparr>)"

fun run_steps :: "step list \<Rightarrow> step" where
  "run_steps [] st = skip st"
| "run_steps (f # fs) st =
     (let a = f st in case raised a of Some e \<Rightarrow> a | None \<Rightarrow> and_then a (run_steps fs))"

text \<open>\<^verbatim>\<open>try: body  except Exception as e: handler\<close>\<close>

definition try_except_Exception :: "step \<Rightarrow> (exn \<Rightarrow> step) \<Rightarrow> step" where
  "try_except_Exception body handler st =
     (let a = body st in
      case raised a of
        Some e \<Rightarrow> if is_Exception e then and_then (a\<lparr>raised := None\<rparr>) (handler e) else a
      | None \<Rightarrow> a)"

text \<open>Lines 11 to 16: the API key is read from the environment and only tested.\<close>

definition key_missing :: "pystr option \<Rightarrow> bool" where
  "key_missing k = (case k of None \<Rightarrow> True | Some v \<Rightarrow> py_not v)"

definition init_openai :: "run_input \<Rightarrow> step" where
  "init_openai i =
     try_except_Exception
       (\<lambda>st. case raises i EnvironGet of
                Some e \<Rightarrow> raise e st
              | None \<Rightarrow>
                  if key_missing (openai_key i)
                  then st_call i KeyWarning
                         (Warning (py ''OpenAI API key not found. Some features may be limited.'')) st
                  else skip st)
       (\<lambda>e. render (Error (py ''Error initializing OpenAI: '' @ str e)))"

text \<open>Lines 56 to 74: the dict literal assigned to \<^verbatim>\<open>st.session_state.results\<close>.\<close>

definition new_result :: "run_input \<Rightarrow> research_result" where
  "new_result i =
     \<lparr> query = query_text i,
       model = model_name (model_choice i),
       timestamp = isoformat (now i),
       findings = [tiebreaker_finding, statistics_finding] \<rparr>"

definition store_results :: "run_input \<Rightarrow> step" where
  "store_results i st =
     (case raises i StoreResults of
        Some e \<Rightarrow> raise e st
      | None \<Rightarrow> skip (Some (new_result i)))"

text \<open>
  Reading \<^verbatim>\<open>st.session_state.results\<close> when nothing was stored raises an
  \<^verbatim>\<open>AttributeError\<close>.
\<close>

definition no_results_error :: exn where
  "no_results_error = Exn True (py ''st.session_state has no attribute results'')"

text \<open>Lines 80 to 83: the loop over the stored findings, one expander for each.\<close>

definition show_finding :: "run_input \<Rightarrow> nat \<times> finding \<Rightarrow> step" where
  "show_finding i p =
     run_steps
       [st_call i (FindingExpander (fst p))
          (Expander (title (snd p) @ py '' (Relevance: '' @ float_repr (relevance (snd p))
                     @ py '')'')),
        st_call i (FindingMarkdown (fst p)) (Markdown (content (snd p))),
        st_call i (FindingCaption (fst p)) (Caption (py ''Source: '' @ source (snd p)))]"

definition display_results :: "run_input \<Rightarrow> step" where
  "display_results i st =
     (case st of
        None \<Rightarrow> raise no_results_error st
      | Some r \<Rightarrow> run_steps (map (show_finding i) (enumerate 0 (findings r))) st)"

text \<open>Lines 86 to 90: the download button, and the balloons when it reports a click.\<close>

definition export_option :: "run_input \<Rightarrow> step" where
  "export_option i st =
     (case st of
        None \<Rightarrow> raise no_results_error st
      | Some r \<Rightarrow>
          run_steps
            [st_call i ExportButton
               (DownloadButton (py ''Export Results as JSON'') (dumps (result_dict r))
                  (py ''research_results.json'') (py ''application/json'')),
             (if export_clicked i then st_call i ShowBalloons Balloons else skip)] st)"

text \<open>Lines 55 to 90: the body of the \<^verbatim>\<open>try\<close> block of the button's handler.\<close>

definition research :: "run_input \<Rightarrow> step" where
  "research i =
     run_steps
       [store_results i,
        st_call i ShowSuccess (Success (py ''Research complete!'')),
        display_results i,
        export_option i]"

text \<open>Lines 49 to 93: what the script does when the button reports a click.\<close>

definition submit :: "run_input \<Rightarrow> step" where
  "submit i =
     (if py_not (query_text i)
      then render (Warning (py ''Please enter a research query.''))
      else try_except_Exception (research i)
             (\<lambda>e. render (Error (py ''Error during research: '' @ str e))))"

definition footer :: "elem list" where
  "footer =
     [Markdown (py ''---''), Markdown (py ''XII-OS Deep Research | Tennis Tiebreaker System'')]"

text \<open>
  Lines 18 to 47: what the script renders between the start-up block and the button.
  The input widgets appear through the values they return (\<open>run_input\<close>).
\<close>

definition heading :: "elem list" where
  "heading =
     [Title (py ''XII-OS Deep Research''),
      Markdown (py ''Powered by OpenAI and Streamlit''),
      Header (py ''Research Options''),
      Markdown (py ''---''),
      Markdown (py ''### About''),
      Markdown (py ''This tool performs deep research using OpenAI models.''),
      Markdown (py ''Data is retrieved from custom knowledge bases.''),
      Expander (py ''Advanced Options'')]"

text \<open>One run of the whole script, from the session value the previous run left.\<close>

definition page :: "run_input \<Rightarrow> step" where
  "page i =
     run_steps
       [init_openai i,
        run_steps (map render heading),
        (if start_research i then submit i else skip),
        run_steps (map render footer)]"

section \<open>Notions used to state the properties\<close>

text \<open>
  The whitespace code points of \<^verbatim>\<open>str.isspace\<close>; a whitespace-only string is a non-empty
  string of them. The script itself never tests for whitespace: the notion is only
  needed to state what happens on such a query.
\<close>

definition isspace :: "nat \<Rightarrow> bool" where
  "isspace c =
     (c \<in> set [9, 10, 11, 12, 13, 28, 29, 30, 31, 32, 133, 160, 5760, 8192, 8193, 8194,
                8195, 8196, 8197, 8198, 8199, 8200, 8201, 8202, 8232, 8233, 8239, 8287,
                12288])"

definition whitespace_only :: "pystr \<Rightarrow> bool" where
  "whitespace_only q = (q \<noteq> [] \<and> list_all isspace q)"

text \<open>
  An exception raised at a site is handled by the enclosing \<^verbatim>\<open>except Exception\<close> when it
  is an instance of \<^verbatim>\<open>Exception\<close>. A valid submit is a run in which the button reports
  a click, the query is not empty, the script reaches the handler (nothing raised at
  start-up escapes) and the assignment to \<^verbatim>\<open>st.session_state.results\<close> does not raise.
\<close>

definition caught :: "exn option \<Rightarrow> bool" where
  "caught r = (case r of None \<Rightarrow> True | Some e \<Rightarrow> is_Exception e)"

definition valid_submit :: "run_input \<Rightarrow> bool" where
  "valid_submit i =
     (start_research i \<and> \<not> py_not (query_text i) \<and> raises i StoreResults = None
      \<and> caught (raises i EnvironGet) \<and> caught (raises i KeyWarning))"

text \<open>
  The page as a two-state machine over the stored result, and the session value left by
  a sequence of runs (each run is one in-page action: a click, a widget change).
\<close>

datatype page_state = Idle | ResultShown

fun state_of :: "research_result option \<Rightarrow> page_state" where
  "state_of None = Idle"
| "state_of (Some r) = ResultShown"

fun session_after :: "run_input list \<Rightarrow> research_result option \<Rightarrow> research_result option" where
  "session_after [] session = session"
| "session_after (i # js) session = session_after js (results (page i session))"

text \<open>
  The sites the \<^verbatim>\<open>try\<close> block of the handler passes, in the order of the source, and the
  first exception raised along a list of sites. \<open>below_startup\<close> is the page from its
  title downwards, that is without the messages of the start-up block.
\<close>

definition research_sites :: "run_input \<Rightarrow> site list" where
  "research_sites i =
     [StoreResults, ShowSuccess,
      FindingExpander 0, FindingMarkdown 0, FindingCaption 0,
      FindingExpander 1, FindingMarkdown 1, FindingCaption 1,
      ExportButton]
     @ (if export_clicked i then [ShowBalloons] else [])"

fun first_raise :: "run_input \<Rightarrow> site list \<Rightarrow> exn option" where
  "first_raise i [] = None"
| "first_raise i (c # cs) = (case raises i c of Some e \<Rightarrow> Some e | None \<Rightarrow> first_raise i cs)"

definition below_startup :: "elem list \<Rightarrow> elem list" where
  "below_startup els = dropWhile (\<lambda>el. el \<noteq> Title (py ''XII-OS Deep Research'')) els"

text \<open>Concrete inputs, used to instantiate the theorems below.\<close>

definition sample_now :: datetime where
  "sample_now =
     \<lparr> year = 2024, month = 5, day = 17, hour = 9, minute = 30, second = 5,
       microsecond = 120034 \<rparr>"

definition sample_input :: run_input where
  "sample_input =
     \<lparr> openai_key = None, model_choice = Gpt_4o, temperature = Decimal 0 [7],
       max_tokens = 1500, query_text = py ''tiebreaker rules'', search_depth = Basic,
       include_citations = True, domains = [], date_range = [(2000, 1, 1), (2024, 5, 17)],
       start_research = True, export_clicked = False, now = sample_now,
       raises = (\<lambda>c. None) \<rparr>"

definition failing_input :: run_input where
  "failing_input =
     sample_input\<lparr>raises := (\<lambda>c. if c = FindingMarkdown 1
                                   then Some (Exn True (py ''connection lost'')) else None)\<rparr>"

text \<open>
  Which rendered elements are download buttons, and further concrete inputs: a valid
  submit in which \<^verbatim>\<open>st.success\<close> raises an exception that is not an instance of
  \<^verbatim>\<open>Exception\<close> (a \<^verbatim>\<open>KeyboardInterrupt\<close>, say); a run in which the button reports no
  click; a query of a high and a low surrogate code point, and the query of the one code
  point U+1F600 that pair stands for; a query with quotes and a non-ASCII letter.
\<close>

fun is_download :: "elem \<Rightarrow> bool" where
  "is_download (DownloadButton label data file_name mime) = True"
| "is_download el = False"

definition interrupted_input :: run_input where
  "interrupted_input =
     sample_input\<lparr>raises := (\<lambda>c. if c = ShowSuccess
                                   then Some (Exn False (py ''interrupted'')) else None)\<rparr>"

definition idle_input :: run_input where
  "idle_input = sample_input\<lparr>start_research := False\<rparr>"



definition quoted_input :: run_input where
  \<open>quoted_input =
     sample_input\<lparr>query_text := py ''the "super" tiebreaker in Orl'' @ [233] @ py ''ans''\<rparr>\<close>

text \<open>A step keeps the stored result when it never writes \<^verbatim>\<open>st.session_state.results\<close>.\<close>

definition keeps_results :: "step \<Rightarrow> bool" where
  "keeps_results f = (\<forall>st. results (f st) = st)"

section \<open>ISO 8601 timestamps\<close>

text \<open>
  What it means for a string to be an ISO 8601 timestamp, written as a recogniser of
  the extended format \<^verbatim>\<open>YYYY-MM-DDThh:mm:ss\<close> with an optional decimal fraction of the
  second: four, two and two digits for the date, two digits each for hour, minute and
  second, every field in its range. It is independent of how \<open>isoformat\<close> prints.
\<close>

definition is_digit :: "nat \<Rightarrow> bool" where
  "is_digit c = (48 \<le> c \<and> c \<le> 57)"

definition digits_value :: "pystr \<Rightarrow> nat" where
  "digits_value s = foldl (\<lambda>a c. 10 * a + (c - 48)) 0 s"

definition fixed_number :: "nat \<Rightarrow> pystr \<Rightarrow> (nat \<times> pystr) option" where
  "fixed_number k s =
     (if k \<le> length s \<and> list_all is_digit (take k s)
      then Some (digits_value (take k s), drop k s) else None)"

definition expect :: "nat \<Rightarrow> pystr \<Rightarrow> pystr option" where
  "expect c s = (case s of [] \<Rightarrow> None | x # xs \<Rightarrow> if x = c then Some xs else None)"

definition iso8601 :: "pystr \<Rightarrow> bool" where
  "iso8601 s =
     (case do {
        (y, s) \<leftarrow> fixed_number 4 s;
        s \<leftarrow> expect 45 s;
        (m, s) \<leftarrow> fixed_number 2 s;
        s \<leftarrow> expect 45 s;
        (d, s) \<leftarrow> fixed_number 2 s;
        s \<leftarrow> expect 84 s;
        (h, s) \<leftarrow> fixed_number 2 s;
        s \<leftarrow> expect 58 s;
        (mi, s) \<leftarrow> fixed_number 2 s;
        s \<leftarrow> expect 58 s;
        (sec, s) \<leftarrow> fixed_number 2 s;
        Some (1 \<le> m \<and> m \<le> 12 \<and> 1 \<le> d \<and> d \<le> 31 \<and> h \<le> 23 \<and> mi \<le> 59 \<and> sec \<le> 59
              \<and> (case s of [] \<Rightarrow> True
                 | c # f \<Rightarrow> c = 46 \<and> f \<noteq> [] \<and> list_all is_digit f))
      } of Some ok \<Rightarrow> ok | None \<Rightarrow> False)"

text \<open>
  The fields of a Python \<^verbatim>\<open>datetime\<close> are in range by construction of the type (the day
  is further bounded by the month, which is not needed here).
\<close>

definition valid_datetime :: "datetime \<Rightarrow> bool" where
  "valid_datetime d =
     (1 \<le> year d \<and> year d \<le> 9999 \<and> 1 \<le> month d \<and> month d \<le> 12 \<and> 1 \<le> day d \<and> day d \<le> 31
      \<and> hour d < 24 \<and> minute d < 60 \<and> second d < 60 \<and> microsecond d < 1000000)"

text \<open>
  The digits of a number in a field of fixed width: what \<^verbatim>\<open>%0kd\<close> prints for a number
  below \<open>10 ^ k\<close>.
\<close>

fun fixed_digits :: "nat \<Rightarrow> nat \<Rightarrow> nat list" where
  "fixed_digits 0 n = []"
| "fixed_digits (Suc k) n = fixed_digits k (n div 10) @ [n mod 10]"

section \<open>Reading the export back: \<^verbatim>\<open>json.loads\<close>\<close>

text \<open>
  The decoder of Python's \<^verbatim>\<open>json\<close> module, for the texts whose values are strings,
  numbers with a fraction, arrays and objects: the values \<open>pyval\<close> has. A text the module
  would decode to some other value (an integer, a number with a sign or an exponent,
  \<^verbatim>\<open>true\<close>, \<^verbatim>\<open>false\<close>, \<^verbatim>\<open>null\<close>) is outside the model and is answered \<open>None\<close>, as a
  malformed text is. Whitespace is skipped wherever the decoder skips it.
\<close>

definition is_ws :: "nat \<Rightarrow> bool" where
  "is_ws c = (c = 32 \<or> c = 9 \<or> c = 10 \<or> c = 13)"

fun skip_ws :: "pystr \<Rightarrow> pystr" where
  "skip_ws [] = []"
| "skip_ws (c # cs) = (if is_ws c then skip_ws cs else c # cs)"

fun starts_with :: "nat \<Rightarrow> pystr \<Rightarrow> bool" where
  "starts_with c [] = False"
| "starts_with c (x # xs) = (x = c)"

text \<open>
  \<^verbatim>\<open>scanstring\<close> reads a string from behind its opening quote to its closing quote.
  A backslash introduces one of the short escapes or \<^verbatim>\<open>\uXXXX\<close>; a high surrogate
  followed by an escaped low surrogate is read as the one code point the pair stands
  for; a raw control character is refused (\<^verbatim>\<open>strict\<close> is on by default).
\<close>

definition hex_value :: "nat \<Rightarrow> nat option" where
  "hex_value c =
     (if 48 \<le> c \<and> c \<le> 57 then Some (c - 48)
      else if 97 \<le> c \<and> c \<le> 102 then Some (c - 87)
      else if 65 \<le> c \<and> c \<le> 70 then Some (c - 55)
      else None)"

definition decode_uXXXX :: "pystr \<Rightarrow> nat option" where
  "decode_uXXXX s =
     (case s of
        a # b # c # d # _ \<Rightarrow>
          do { x \<leftarrow> hex_value a; y \<leftarrow> hex_value b; z \<leftarrow> hex_value c; w \<leftarrow> hex_value d;
               Some (((x * 16 + y) * 16 + z) * 16 + w) }
      | _ \<Rightarrow> None)"

definition backslash :: "nat \<Rightarrow> nat option" where
  "backslash e =
     (if e = 34 then Some 34
      else if e = 92 then Some 92
      else if e = 47 then Some 47
      else if e = 98 then Some 8
      else if e = 102 then Some 12
      else if e = 110 then Some 10
      else if e = 114 then Some 13
      else if e = 116 then Some 9
      else None)"

definition prepend :: "nat \<Rightarrow> (pystr \<times> pystr) option \<Rightarrow> (pystr \<times> pystr) option" where
  "prepend c r = map_option (\<lambda>p. (c # fst p, snd p)) r"

fun scanstring :: "pystr \<Rightarrow> (pystr \<times> pystr) option" where
  "scanstring [] = None"
| "scanstring (c # cs) =
     (if c = 34 then Some ([], cs)
      else if c = 92 then
        (case cs of
           [] \<Rightarrow> None
         | e # es \<Rightarrow>
             if e = 117 then
               (case decode_uXXXX es of
                  None \<Rightarrow> None
                | Some uni \<Rightarrow>
                    if 55296 \<le> uni \<and> uni \<le> 56319 \<and> take 2 (drop 4 es) = [92, 117] then
                      (case decode_uXXXX (drop 6 es) of
                         None \<Rightarrow> None
                       | Some uni2 \<Rightarrow>
                           if 56320 \<le> uni2 \<and> uni2 \<le> 57343
                           then prepend (65536 + ((uni - 55296) * 1024 + (uni2 - 56320)))
                                  (scanstring (drop 10 es))
                           else prepend uni (scanstring (drop 4 es)))
                    else prepend uni (scanstring (drop 4 es)))
             else (case backslash e of
                     None \<Rightarrow> None
                   | Some ch \<Rightarrow> prepend ch (scanstring es)))
      else if c < 32 then None
      else prepend c (scanstring cs))"

text \<open>
  A number is matched as \<^verbatim>\<open>(0|[1-9][0-9]*)\<close> followed by \<^verbatim>\<open>.\<close> and digits. The float it
  denotes is kept as the numeral \<^verbatim>\<open>repr\<close> prints: trailing zeros of the fraction dropped.
  That numeral is the float's own only in the range where \<^verbatim>\<open>repr\<close> prints plain decimals
  and decimals are told apart by the float they round to: at most 15 digits, and not
  below 0.0001 unless zero. Outside that range the model answers \<open>None\<close>.
\<close>

definition shortest :: "nat list \<Rightarrow> nat list" where
  "shortest ds =
     (let t = rev (dropWhile (\<lambda>d. d = 0) (rev ds)) in if t = [] then [0] else t)"

definition plain_repr :: "pyfloat \<Rightarrow> bool" where
  "plain_repr x =
     (case x of Decimal w ds \<Rightarrow>
        list_all (\<lambda>d. d < 10) ds \<and> shortest ds = ds
        \<and> length (dec_digits w) + length ds \<le> 15
        \<and> (0 < w \<or> ds = [0] \<or> take 4 ds \<noteq> [0, 0, 0, 0]))"

definition has_exponent :: "pystr \<Rightarrow> bool" where
  "has_exponent s =
     (case s of
        [] \<Rightarrow> False
      | e # r \<Rightarrow>
          (e = 101 \<or> e = 69)
          \<and> (case r of
                [] \<Rightarrow> False
              | d # r' \<Rightarrow>
                  is_digit d
                  \<or> ((d = 43 \<or> d = 45) \<and> (case r' of [] \<Rightarrow> False | d' # _ \<Rightarrow> is_digit d'))))"

definition match_number :: "pystr \<Rightarrow> (pyval \<times> pystr) option" where
  "match_number s =
     (let int_part = (if starts_with 48 s then [48] else takeWhile is_digit s);
          s1 = drop (length int_part) s
      in if int_part = [] \<or> \<not> starts_with 46 s1 then None
         else
           let frac = takeWhile is_digit (tl s1);
               s2 = dropWhile is_digit (tl s1);
               x = Decimal (digits_value int_part) (shortest (map (\<lambda>c. c - 48) frac))
           in if frac = [] \<or> has_exponent s2 \<or> \<not> plain_repr x then None
              else Some (PFloat x, s2))"

text \<open>
  A dict built from pairs: a later pair with a key already present replaces the value
  at the key's place, as \<^verbatim>\<open>dict(pairs)\<close> does.
\<close>

fun setitem :: "pystr \<Rightarrow> pyval \<Rightarrow> (pystr \<times> pyval) list \<Rightarrow> (pystr \<times> pyval) list" where
  "setitem k v [] = [(k, v)]"
| "setitem k v (p # ps) = (if fst p = k then (k, v) # ps else p # setitem k v ps)"

definition dict_of :: "(pystr \<times> pyval) list \<Rightarrow> (pystr \<times> pyval) list" where
  "dict_of pairs = foldl (\<lambda>d p. setitem (fst p) (snd p) d) [] pairs"

text \<open>
  The scanner. \<open>parse_array\<close> reads the elements of a non-empty array up to its closing
  bracket, \<open>parse_object\<close> the members of a non-empty object up to its closing brace. The
  first argument bounds the number of nested calls, so that the functions are total;
  \<open>loads\<close> starts with the length of the text, which no text exhausts.
\<close>

fun parse_value :: "nat \<Rightarrow> pystr \<Rightarrow> (pyval \<times> pystr) option"
  and parse_array :: "nat \<Rightarrow> pystr \<Rightarrow> (pyval list \<times> pystr) option"
  and parse_object :: "nat \<Rightarrow> pystr \<Rightarrow> ((pystr \<times> pyval) list \<times> pystr) option"
where
  "parse_value 0 s = None"
| "parse_value (Suc n) s =
     (if starts_with 34 s then map_option (\<lambda>p. (PStr (fst p), snd p)) (scanstring (tl s))
      else if starts_with 91 s then
        (let s1 = skip_ws (tl s) in
         if starts_with 93 s1 then Some (PList [], tl s1)
         else map_option (\<lambda>p. (PList (fst p), snd p)) (parse_array n s1))
      else if starts_with 123 s then
        (let s1 = skip_ws (tl s) in
         if starts_with 125 s1 then Some (PDict [], tl s1)
         else map_option (\<lambda>p. (PDict (dict_of (fst p)), snd p)) (parse_object n s1))
      else match_number s)"
| "parse_array 0 s = None"
| "parse_array (Suc n) s =
     (case parse_value n s of
        None \<Rightarrow> None
      | Some (v, r) \<Rightarrow>
          (let r1 = skip_ws r in
           if starts_with 93 r1 then Some ([v], tl r1)
           else if starts_with 44 r1
           then map_option (\<lambda>p. (v # fst p, snd p)) (parse_array n (skip_ws (tl r1)))
           else None))"
| "parse_object 0 s = None"
| "parse_object (Suc n) s =
     (if \<not> starts_with 34 s then None
      else
        (case scanstring (tl s) of
           None \<Rightarrow> None
         | Some (k, r) \<Rightarrow>
             (let r1 = skip_ws r in
              if \<not> starts_with 58 r1 then None
              else
                (case parse_value n (skip_ws (tl r1)) of
                   None \<Rightarrow> None
                 | Some (v, r2) \<Rightarrow>
                     (let r3 = skip_ws r2 in
                      if starts_with 125 r3 then Some ([(k, v)], tl r3)
                      else if starts_with 44 r3
                      then map_option (\<lambda>p. ((k, v) # fst p, snd p))
                             (parse_object n (skip_ws (tl r3)))
                      else None)))))"

definition loads :: "pystr \<Rightarrow> pyval option" where
  "loads s =
     (case parse_value (length s) (skip_ws s) of
        None \<Rightarrow> None
      | Some (v, r) \<Rightarrow> if skip_ws r = [] then Some v else None)"

text \<open>
  A Python \<^verbatim>\<open>str\<close> is a sequence of code points below 0x110000, the surrogates 0xD800 to
  0xDFFF among them. \<^verbatim>\<open>json.dumps\<close> writes a code point from 0x10000 on as two escaped
  surrogates, and writes a surrogate of the string as the same kind of escape; so the
  decoder reads a high surrogate directly followed by a low one as the one code point
  the pair stands for. \<open>merge_pairs\<close> is that reading. A string is \<open>unpaired\<close> when it has
  no such pair; text of Unicode scalar values (no surrogate at all, \<open>unicode_text\<close>) is.
\<close>

definition is_high :: "nat \<Rightarrow> bool" where
  "is_high c = (55296 \<le> c \<and> c \<le> 56319)"

definition is_low :: "nat \<Rightarrow> bool" where
  "is_low c = (56320 \<le> c \<and> c \<le> 57343)"

definition is_str :: "pystr \<Rightarrow> bool" where
  "is_str s = list_all (\<lambda>c. c < 1114112) s"

fun merge_pairs :: "pystr \<Rightarrow> pystr" where
  "merge_pairs (h # l # s) =
     (if is_high h \<and> is_low l
      then (65536 + ((h - 55296) * 1024 + (l - 56320))) # merge_pairs s
      else h # merge_pairs (l # s))"
| "merge_pairs [] = []"
| "merge_pairs [c] = [c]"

definition unpaired :: "pystr \<Rightarrow> bool" where
  "unpaired s = (is_str s \<and> merge_pairs s = s)"

definition unicode_text :: "pystr \<Rightarrow> bool" where
  "unicode_text s = list_all (\<lambda>c. c < 55296 \<or> (57343 < c \<and> c < 1114112)) s"

text \<open>
  The values the round trip is stated for: unpaired strings, floats in the range of
  \<open>plain_repr\<close>, and dicts whose keys are distinct, as the keys of a Python dict are.
\<close>

fun well_formed :: "pyval \<Rightarrow> bool"
  and well_formed_list :: "pyval list \<Rightarrow> bool"
  and well_formed_dict :: "(pystr \<times> pyval) list \<Rightarrow> bool"
where
  "well_formed (PStr s) = unpaired s"
| "well_formed (PFloat x) = plain_repr x"
| "well_formed (PList vs) = well_formed_list vs"
| "well_formed (PDict kvs) = (distinct (map fst kvs) \<and> well_formed_dict kvs)"
| "well_formed_list [] = True"
| "well_formed_list (v # vs) = (well_formed v \<and> well_formed_list vs)"
| "well_formed_dict [] = True"
| "well_formed_dict (kv # kvs) =
     (unpaired (fst kv) \<and> well_formed (snd kv) \<and> well_formed_dict kvs)"

text \<open>A bound on the nested calls the scanner makes on the text of a value.\<close>

fun cost :: "pyval \<Rightarrow> nat"
  and cost_list :: "pyval list \<Rightarrow> nat"
  and cost_dict :: "(pystr \<times> pyval) list \<Rightarrow> nat"
where
  "cost (PStr s) = 1"
| "cost (PFloat x) = 1"
| "cost (PList vs) = Suc (cost_list vs)"
| "cost (PDict kvs) = Suc (cost_dict kvs)"
| "cost_list [] = 0"
| "cost_list (v # vs) = Suc (cost v + cost_list vs)"
| "cost_dict [] = 0"
| "cost_dict (kv # kvs) = Suc (cost (snd kv) + cost_dict kvs)"

text \<open>What may stand behind a value in a text \<open>dumps\<close> writes: a comma, a newline, nothing.\<close>

definition follows :: "pystr \<Rightarrow> bool" where
  "follows rest = (case rest of [] \<Rightarrow> True | c # _ \<Rightarrow> c = 44 \<or> c = 10)"

text \<open>The characters a written value can begin with.\<close>

definition value_start :: "nat \<Rightarrow> bool" where
  "value_start c = (c = 34 \<or> c = 91 \<or> c = 123 \<or> is_digit c)"

section \<open>The stored result across a run\<close>

text \<open>
  Only the assignment at line 56 writes \<^verbatim>\<open>st.session_state.results\<close>; every other step
  of the script leaves it as it is, whether it finishes or raises.
\<close>

lemma keeps_skip: "keeps_results skip"
  by (simp add: keeps_results_def skip_def)

lemma keeps_raise: "keeps_results (raise e)"
  by (simp add: keeps_results_def raise_def)

lemma keeps_render: "keeps_results (render el)"
  by (simp add: keeps_results_def render_def)

lemma keeps_st_call: "keeps_results (st_call i c el)"
  by (simp add: keeps_results_def st_call_def render_def raise_def split: option.split)

lemma results_and_then: "results (and_then a f) = results (f (results a))"
  by (simp add: and_then_def Let_def)

lemma rendered_and_then: "rendered (and_then a f) = rendered a @ rendered (f (results a))"
  by (simp add: and_then_def Let_def)

lemma raised_and_then: "raised (and_then a f) = raised (f (results a))"
  by (simp add: and_then_def Let_def)

lemma results_run_steps_Cons:
  "results (run_steps (f # fs) st) =
     (case raised (f st) of
        Some e \<Rightarrow> results (f st)
      | None \<Rightarrow> results (run_steps fs (results (f st))))"
  by (simp add: Let_def results_and_then split: option.split)

lemma raised_run_steps_Cons:
  "raised (run_steps (f # fs) st) =
     (case raised (f st) of
        Some e \<Rightarrow> Some e
      | None \<Rightarrow> raised (run_steps fs (results (f st))))"
  by (simp add: Let_def raised_and_then split: option.split)

lemma rendered_run_steps_Cons:
  "rendered (run_steps (f # fs) st) =
     (case raised (f st) of
        Some e \<Rightarrow> rendered (f st)
      | None \<Rightarrow> rendered (f st) @ rendered (run_steps fs (results (f st))))"
  by (simp add: Let_def rendered_and_then split: option.split)

lemmas run_steps_Cons = results_run_steps_Cons raised_run_steps_Cons rendered_run_steps_Cons

declare run_steps.simps(2) [simp del]

lemma keeps_run_steps: "list_all keeps_results fs \<Longrightarrow> keeps_results (run_steps fs)"
proof (induction fs)
  case Nil
  show ?case by (simp add: keeps_results_def skip_def)
next
  case (Cons f fs)
  then have f: "\<And>st. results (f st) = st"
    and fs: "\<And>st. results (run_steps fs st) = st"
    by (simp_all add: keeps_results_def)
  show ?case
    unfolding keeps_results_def
  proof
    fix st
    show "results (run_steps (f # fs) st) = st"
      by (cases "raised (f st)") (simp_all add: run_steps_Cons f fs)
  qed
qed

lemma keeps_try:
  assumes "keeps_results body" and "\<And>e. keeps_results (handler e)"
  shows "keeps_results (try_except_Exception body handler)"
  using assms
  by (auto simp: keeps_results_def try_except_Exception_def Let_def results_and_then
           split: option.split)

lemma keeps_show_finding: "keeps_results (show_finding i p)"
  unfolding show_finding_def by (rule keeps_run_steps) (simp add: keeps_st_call)

lemma keeps_display_results: "keeps_results (display_results i)"
  unfolding keeps_results_def
proof
  fix st
  show "results (display_results i st) = st"
  proof (cases st)
    case None
    then show ?thesis by (simp add: display_results_def raise_def)
  next
    case (Some r)
    have "keeps_results (run_steps (map (show_finding i) (enumerate 0 (findings r))))"
      by (rule keeps_run_steps) (simp add: list_all_iff keeps_show_finding)
    with Some show ?thesis by (simp add: display_results_def keeps_results_def)
  qed
qed

lemma keeps_export_option: "keeps_results (export_option i)"
  unfolding keeps_results_def
proof
  fix st
  show "results (export_option i st) = st"
  proof (cases st)
    case None
    then show ?thesis by (simp add: export_option_def raise_def)
  next
    case (Some r)
    have "keeps_results (run_steps
            [st_call i ExportButton
               (DownloadButton (py ''Export Results as JSON'') (dumps (result_dict r))
                  (py ''research_results.json'') (py ''application/json'')),
             (if export_clicked i then st_call i ShowBalloons Balloons else skip)])"
      by (rule keeps_run_steps) (simp add: keeps_st_call keeps_skip)
    with Some show ?thesis by (simp add: export_option_def keeps_results_def)
  qed
qed

lemma keeps_init_openai: "keeps_results (init_openai i)"
  unfolding init_openai_def
  by (rule keeps_try)
     (auto simp: keeps_results_def st_call_def render_def raise_def skip_def
           split: option.split)

lemma keeps_renders: "keeps_results (run_steps (map render els))"
  by (rule keeps_run_steps) (simp add: list_all_iff keeps_render)

lemma research_results:
  "results (research i st) = (if raises i StoreResults = None then Some (new_result i) else st)"
proof -
  let ?rest = "run_steps [st_call i ShowSuccess (Success (py ''Research complete!'')),
                 display_results i, export_option i]"
  have "keeps_results ?rest"
    by (rule keeps_run_steps)
       (simp add: keeps_st_call keeps_display_results keeps_export_option)
  then have rest: "results (?rest st') = st'" for st'
    by (simp add: keeps_results_def)
  have "results (research i st) =
      (case raised (store_results i st) of
         Some e \<Rightarrow> results (store_results i st)
       | None \<Rightarrow> results (?rest (results (store_results i st))))"
    unfolding research_def by (rule results_run_steps_Cons)
  then show ?thesis
    by (simp add: store_results_def skip_def raise_def rest split: option.split)
qed

lemma submit_results:
  "results (submit i st) =
     (if query_text i = [] \<or> raises i StoreResults \<noteq> None then st
      else Some (new_result i))"
proof (cases "query_text i = []")
  case True
  then show ?thesis by (simp add: submit_def py_not_def render_def)
next
  case False
  have "results (try_except_Exception (research i) h st) = results (research i st)"
    if "\<And>e. keeps_results (h e)" for h
    using that
    by (auto simp: try_except_Exception_def Let_def results_and_then keeps_results_def
             split: option.split)
  then have "results (submit i st) = results (research i st)"
    using False by (simp add: submit_def py_not_def keeps_render)
  with False show ?thesis by (simp add: research_results)
qed

lemma page_keeps:
  assumes "keeps_results (if start_research i then submit i else skip)"
  shows "results (page i session) = session"
proof -
  have "keeps_results (page i)"
    unfolding page_def using assms
    by (intro keeps_run_steps) (simp add: keeps_renders keeps_init_openai)
  then show ?thesis by (simp add: keeps_results_def)
qed

text \<open>
  A run in which nothing raised at start-up escapes reaches the button; the steps
  after the handler keep what it stored.
\<close>

lemma init_openai_caught:
  "caught (raises i EnvironGet) \<Longrightarrow> caught (raises i KeyWarning) \<Longrightarrow>
   raised (init_openai i st) = None"
  by (auto simp: init_openai_def caught_def try_except_Exception_def st_call_def render_def
                 raise_def skip_def and_then_def Let_def
           split: option.splits)

lemma raised_renders: "raised (run_steps (map render els) st) = None"
  by (induction els arbitrary: st) (simp_all add: run_steps_Cons skip_def render_def)

lemma page_results_reached:
  assumes "caught (raises i EnvironGet)" and "caught (raises i KeyWarning)"
  shows "results (page i session) = results ((if start_research i then submit i else skip) session)"
proof -
  let ?b = "if start_research i then submit i else skip"
  have init: "raised (init_openai i session) = None" "results (init_openai i session) = session"
    using assms keeps_init_openai [of i]
    by (simp_all add: init_openai_caught keeps_results_def)
  have head: "raised (run_steps (map render heading) session) = None"
    "results (run_steps (map render heading) session) = session"
    using keeps_renders [of heading] by (simp_all add: raised_renders keeps_results_def)
  have foot: "results (run_steps (map render footer) st') = st'" for st'
    using keeps_renders [of footer] by (simp add: keeps_results_def)
  have "results (page i session) =
      (case raised (?b session) of
         Some e \<Rightarrow> results (?b session)
       | None \<Rightarrow> results (run_steps [run_steps (map render footer)] (results (?b session))))"
    by (simp only: page_def results_run_steps_Cons init head option.case)
  also have "\<dots> = results (?b session)"
    by (simp add: results_run_steps_Cons raised_renders foot skip_def split: option.split)
  finally show ?thesis .
qed

lemma page_valid_submit:
  "valid_submit i \<Longrightarrow> results (page i session) = Some (new_result i)"
  by (simp add: valid_submit_def page_results_reached submit_results py_not_def)

lemma page_never_clears: "session \<noteq> None \<Longrightarrow> results (page i session) \<noteq> None"
proof -
  assume some: "session \<noteq> None"
  define P :: "step \<Rightarrow> bool" where "P = (\<lambda>f. \<forall>st. st \<noteq> None \<longrightarrow> results (f st) \<noteq> None)"
  have run: "list_all P fs \<Longrightarrow> P (run_steps fs)" for fs
  proof (induction fs)
    case Nil
    show ?case by (simp add: P_def skip_def)
  next
    case (Cons f fs)
    then have f: "\<And>st. st \<noteq> None \<Longrightarrow> results (f st) \<noteq> None"
      and fs: "\<And>st. st \<noteq> None \<Longrightarrow> results (run_steps fs st) \<noteq> None"
      by (simp_all add: P_def)
    show ?case
      unfolding P_def
    proof (intro allI impI)
      fix st :: "research_result option" assume st: "st \<noteq> None"
      show "results (run_steps (f # fs) st) \<noteq> None"
        using f [OF st] fs [OF f [OF st]]
        by (cases "raised (f st)") (simp_all add: run_steps_Cons)
    qed
  qed
  have keepP: "keeps_results f \<Longrightarrow> P f" for f
    by (simp add: keeps_results_def P_def)
  have "P (submit i)" by (simp add: P_def submit_results)
  then have "P (page i)"
    unfolding page_def
    by (intro run) (simp add: keepP keeps_renders keeps_init_openai keeps_skip)
  with some show ?thesis by (simp add: P_def)
qed

lemma session_after_never_clears:
  "session \<noteq> None \<Longrightarrow> session_after js session \<noteq> None"
proof (induction js arbitrary: session)
  case Nil
  then show ?case by simp
next
  case (Cons i js)
  from Cons.prems have "results (page i session) \<noteq> None"
    by (rule page_never_clears)
  then have "session_after js (results (page i session)) \<noteq> None"
    by (rule Cons.IH)
  then show ?case by simp
qed

section \<open>What a run renders and raises\<close>

lemma st_call_proj:
  "raised (st_call i c el st) = raises i c"
  "results (st_call i c el st) = st"
  "rendered (st_call i c el st) = (if raises i c = None then [el] else [])"
  by (simp_all add: st_call_def raise_def render_def split: option.split)

lemma skip_proj: "raised (skip st) = None" "results (skip st) = st" "rendered (skip st) = []"
  by (simp_all add: skip_def)

lemma raised_show_finding:
  "raised (show_finding i (n, f) st)
     = first_raise i [FindingExpander n, FindingMarkdown n, FindingCaption n]"
  by (simp add: show_finding_def run_steps_Cons st_call_proj skip_proj split: option.split)

lemma results_show_finding: "results (show_finding i p st) = st"
  using keeps_show_finding [of i p] by (simp add: keeps_results_def)

lemma first_raise_append:
  "first_raise i (cs @ ds) = (case first_raise i cs of Some e \<Rightarrow> Some e | None \<Rightarrow> first_raise i ds)"
  by (induction cs) (simp_all split: option.split)

lemma raised_display_results:
  "raised (display_results i (Some (new_result i)))
     = first_raise i [FindingExpander 0, FindingMarkdown 0, FindingCaption 0,
                      FindingExpander 1, FindingMarkdown 1, FindingCaption 1]"
proof -
  have "raised (display_results i (Some (new_result i)))
      = raised (run_steps [show_finding i (0, tiebreaker_finding),
                           show_finding i (1, statistics_finding)] (Some (new_result i)))"
    by (simp add: display_results_def new_result_def enumerate_eq_zip upt_rec)
  also have "\<dots> = first_raise i ([FindingExpander 0, FindingMarkdown 0, FindingCaption 0]
                      @ [FindingExpander 1, FindingMarkdown 1, FindingCaption 1])"
    unfolding first_raise_append
    by (simp only: raised_run_steps_Cons raised_show_finding results_show_finding)
       (simp add: skip_proj split: option.split)
  finally show ?thesis by simp
qed

lemma raised_export_option:
  "raised (export_option i (Some r))
     = first_raise i (ExportButton # (if export_clicked i then [ShowBalloons] else []))"
  by (simp add: export_option_def run_steps_Cons st_call_proj skip_proj split: option.split)

lemma raised_research:
  "raised (research i st) = first_raise i (research_sites i)"
proof -
  have keep: "results (display_results i st') = st'" for st'
    using keeps_display_results [of i] by (simp add: keeps_results_def)
  have "raised (research i st) =
     (case raises i StoreResults of Some e \<Rightarrow> Some e | None \<Rightarrow>
        case raises i ShowSuccess of Some e \<Rightarrow> Some e | None \<Rightarrow>
          case raised (display_results i (Some (new_result i))) of Some e \<Rightarrow> Some e | None \<Rightarrow>
            raised (export_option i (Some (new_result i))))"
    by (simp add: research_def run_steps_Cons st_call_proj skip_proj store_results_def
        raise_def keep split: option.split)
  also have "\<dots> = first_raise i ([StoreResults, ShowSuccess]
        @ [FindingExpander 0, FindingMarkdown 0, FindingCaption 0,
           FindingExpander 1, FindingMarkdown 1, FindingCaption 1]
        @ (ExportButton # (if export_clicked i then [ShowBalloons] else [])))"
    unfolding first_raise_append raised_display_results raised_export_option
    by (simp split: option.split)
  finally show ?thesis by (simp add: research_sites_def)
qed

lemma rendered_renders: "rendered (run_steps (map render els) st) = els"
  by (induction els arbitrary: st)
     (simp_all add: run_steps_Cons skip_def render_def)

lemma results_renders: "results (run_steps (map render els) st) = st"
  using keeps_renders [of els] by (simp add: keeps_results_def)

lemma page_completes:
  assumes "raised (init_openai i st) = None"
    and "raised ((if start_research i then submit i else skip) st) = None"
  shows "raised (page i st) = None"
    and "rendered (page i st) =
           rendered (init_openai i st) @ heading
           @ rendered ((if start_research i then submit i else skip) st) @ footer"
proof -
  have init: "results (init_openai i st) = st"
    using keeps_init_openai [of i] by (simp add: keeps_results_def)
  show "raised (page i st) = None"
    using assms
    by (simp add: page_def raised_run_steps_Cons init raised_renders results_renders skip_proj)
  show "rendered (page i st) =
           rendered (init_openai i st) @ heading
           @ rendered ((if start_research i then submit i else skip) st) @ footer"
    using assms
    by (simp add: page_def run_steps_Cons init raised_renders results_renders
        rendered_renders skip_proj)
qed

lemma submit_handles:
  assumes "query_text i \<noteq> []" and "raised (research i st) = Some e" and "is_Exception e"
  shows "raised (submit i st) = None"
    and "rendered (submit i st)
           = rendered (research i st) @ [Error (py ''Error during research: '' @ str e)]"
  using assms
  by (simp_all add: submit_def py_not_def try_except_Exception_def Let_def raised_and_then
      rendered_and_then render_def)

text \<open>
  Nothing the handler does reads the API key: the handler of a run is the same
  whatever the key is.
\<close>

lemma key_not_used:
  "submit (i\<lparr>openai_key := k\<rparr>) = submit i"
proof -
  have a: "st_call (i\<lparr>openai_key := k\<rparr>) = st_call i"
    by (intro ext) (simp add: st_call_def)
  have b: "show_finding (i\<lparr>openai_key := k\<rparr>) = show_finding i"
    by (intro ext) (simp add: show_finding_def a)
  have c: "display_results (i\<lparr>openai_key := k\<rparr>) = display_results i"
    by (intro ext) (simp add: display_results_def b split: option.split)
  have d: "export_option (i\<lparr>openai_key := k\<rparr>) = export_option i"
    by (intro ext) (simp add: export_option_def a split: option.split)
  have e: "store_results (i\<lparr>openai_key := k\<rparr>) = store_results i"
    by (intro ext) (simp add: store_results_def new_result_def split: option.split)
  have "research (i\<lparr>openai_key := k\<rparr>) = research i"
    by (simp add: research_def a c d e)
  then show ?thesis by (simp add: submit_def)
qed

lemma init_openai_cases:
  assumes "caught (raises i KeyWarning)"
  shows "raised (init_openai i st) = (case raises i EnvironGet of
            Some e \<Rightarrow> if is_Exception e then None else Some e | None \<Rightarrow> None)"
    and "below_startup (rendered (init_openai i st) @ Title (py ''XII-OS Deep Research'') # els)
           = Title (py ''XII-OS Deep Research'') # els"
    and "raises i EnvironGet = Some e \<Longrightarrow> \<not> is_Exception e \<Longrightarrow> rendered (init_openai i st) = []"
  using assms
  by (auto simp: init_openai_def caught_def try_except_Exception_def st_call_def render_def
                 raise_def skip_def and_then_def Let_def below_startup_def
           split: option.splits)

lemma page_split:
  "page i st =
     (let a = init_openai i st in
      case raised a of
        Some e \<Rightarrow> a
      | None \<Rightarrow> and_then a (run_steps [run_steps (map render heading),
                   (if start_research i then submit i else skip),
                   run_steps (map render footer)]))"
  by (simp add: page_def run_steps.simps(2))

lemma rendered_from_heading:
  "\<exists>els. rendered (run_steps (run_steps (map render heading) # fs) st)
          = Title (py ''XII-OS Deep Research'') # els"
proof -
  have "rendered (run_steps (run_steps (map render heading) # fs) st)
      = heading @ rendered (run_steps fs st)"
    by (simp add: rendered_run_steps_Cons [of "run_steps (map render heading)"]
        raised_renders rendered_renders results_renders)
  then show ?thesis by (simp add: heading_def)
qed

section \<open>\<open>isoformat\<close> prints ISO 8601\<close>

lemma fixed_digits_zero: "fixed_digits k 0 = replicate k 0"
  by (induction k) (simp_all add: replicate_append_same)

lemma length_dec_digits_pos: "0 < length (dec_digits n)"
  by (subst dec_digits.simps) simp

lemma pad_dec_digits:
  "n < 10 ^ Suc k \<Longrightarrow>
   replicate (Suc k - length (dec_digits n)) 0 @ dec_digits n = fixed_digits (Suc k) n"
proof (induction k arbitrary: n)
  case 0
  then show ?case by (simp add: dec_digits.simps [of n])
next
  case (Suc k)
  show ?case
  proof (cases "n < 10")
    case True
    then show ?thesis
      by (simp add: dec_digits.simps [of n] fixed_digits_zero replicate_append_same)
  next
    case False
    from Suc.prems have "n div 10 < 10 ^ Suc k" by simp
    from Suc.IH [OF this] have ih:
      "replicate (Suc k - length (dec_digits (n div 10))) 0 @ dec_digits (n div 10)
         = fixed_digits (Suc k) (n div 10)" .
    have "dec_digits n = dec_digits (n div 10) @ [n mod 10]"
      using False by (subst dec_digits.simps) simp
    then show ?thesis using ih by simp
  qed
qed

lemma zero_pad_fixed:
  "n < 10 ^ Suc k \<Longrightarrow> zero_pad (Suc k) n = map digit_char (fixed_digits (Suc k) n)"
proof -
  assume "n < 10 ^ Suc k"
  from pad_dec_digits [OF this]
  have "map digit_char (replicate (Suc k - length (dec_digits n)) 0 @ dec_digits n)
      = map digit_char (fixed_digits (Suc k) n)" by simp
  then show ?thesis by (simp add: zero_pad_def Let_def digit_char_def)
qed

lemma length_fixed_digits: "length (fixed_digits k n) = k"
  by (induction k arbitrary: n) simp_all

lemma fixed_digits_are_digits: "list_all is_digit (map digit_char (fixed_digits k n))"
  by (induction k arbitrary: n) (simp_all add: is_digit_def digit_char_def)

lemma digits_value_snoc: "digits_value (s @ [c]) = 10 * digits_value s + (c - 48)"
  by (simp add: digits_value_def)

lemma digits_value_fixed: "digits_value (map digit_char (fixed_digits k n)) = n mod 10 ^ k"
proof (induction k arbitrary: n)
  case 0
  show ?case by (simp add: digits_value_def)
next
  case (Suc k)
  have "n mod (10 * 10 ^ k) = 10 * (n div 10 mod 10 ^ k) + n mod 10"
    by (simp add: mod_mult2_eq)
  with Suc show ?case by (simp add: digits_value_snoc digit_char_def)
qed

lemma fixed_number_zero_pad:
  assumes "n < 10 ^ Suc k"
  shows "fixed_number (Suc k) (zero_pad (Suc k) n @ rest) = Some (n, rest)"
proof -
  let ?ds = "map digit_char (fixed_digits (Suc k) n)"
  have len: "length ?ds = Suc k" by (simp add: length_fixed_digits del: fixed_digits.simps)
  have "fixed_number (Suc k) (?ds @ rest) = Some (digits_value ?ds, rest)"
    using len fixed_digits_are_digits [of "Suc k" n]
    by (simp add: fixed_number_def del: fixed_digits.simps)
  with assms show ?thesis
    by (simp add: zero_pad_fixed digits_value_fixed del: fixed_digits.simps)
qed

lemma fixed_number_zero_pad':
  "0 < k \<Longrightarrow> n < 10 ^ k \<Longrightarrow> fixed_number k (zero_pad k n @ rest) = Some (n, rest)"
  using fixed_number_zero_pad [of n "k - 1" rest] by (cases k) simp_all

lemma zero_pad_digits: "list_all is_digit (zero_pad k n)"
proof -
  have "list_all (\<lambda>d. d < 10) (dec_digits n)"
  proof (induction n rule: dec_digits.induct)
    case (1 n)
    then show ?case by (subst dec_digits.simps) simp
  qed
  then show ?thesis
    by (simp add: zero_pad_def Let_def list_all_iff is_digit_def digit_char_def) force
qed

lemma zero_pad_nonempty: "zero_pad k n \<noteq> []"
  using length_dec_digits_pos [of n] by (simp add: zero_pad_def Let_def)

lemma iso8601_isoformat: "valid_datetime d \<Longrightarrow> iso8601 (isoformat d)"
proof -
  assume v: "valid_datetime d"
  have n2: "n < 100 \<Longrightarrow> fixed_number 2 (zero_pad 2 n @ rest) = Some (n, rest)" for n rest
    using fixed_number_zero_pad' [of 2 n rest] by simp
  have n4: "n < 10000 \<Longrightarrow> fixed_number 4 (zero_pad 4 n @ rest) = Some (n, rest)" for n rest
    using fixed_number_zero_pad' [of 4 n rest] by simp
  from v have b: "year d < 10000" "month d < 100" "day d < 100" "hour d < 100"
    "minute d < 100" "second d < 100"
    by (simp_all add: valid_datetime_def)
  from v have r: "1 \<le> month d" "month d \<le> 12" "1 \<le> day d" "day d \<le> 31" "hour d \<le> 23"
    "minute d \<le> 59" "second d \<le> 59"
    by (simp_all add: valid_datetime_def)
  show ?thesis
    using r
    by (simp add: iso8601_def isoformat_def py_def expect_def n2 [OF b(2)] n2 [OF b(3)]
        n2 [OF b(4)] n2 [OF b(5)] n2 [OF b(6)] n4 [OF b(1)] zero_pad_digits zero_pad_nonempty)
qed

section \<open>The export: what is offered and how it is laid out\<close>

lemma first_raise_None:
  "first_raise i cs = None \<Longrightarrow> c \<in> set cs \<Longrightarrow> raises i c = None"
  by (induction cs) (auto split: option.splits)

lemma rendered_research:
  assumes "first_raise i (research_sites i) = None"
  shows "rendered (research i st) =
     [Success (py ''Research complete!''),
      Expander (py ''Tennis Tiebreaker Regulations (Relevance: 0.95)''),
      Markdown (content tiebreaker_finding),
      Caption (py ''Source: Big 12 Tennis Rulebook''),
      Expander (py ''Match Statistics Analysis (Relevance: 0.82)''),
      Markdown (content statistics_finding),
      Caption (py ''Source: XII-OS Analytics Database''),
      DownloadButton (py ''Export Results as JSON'') (dumps (result_dict (new_result i)))
        (py ''research_results.json'') (py ''application/json'')]
     @ (if export_clicked i then [Balloons] else [])"
proof -
  note r = first_raise_None [OF assms]
  have none: "raises i StoreResults = None" "raises i ShowSuccess = None"
    "raises i (FindingExpander 0) = None" "raises i (FindingMarkdown 0) = None"
    "raises i (FindingCaption 0) = None" "raises i (FindingExpander (Suc 0)) = None"
    "raises i (FindingMarkdown (Suc 0)) = None" "raises i (FindingCaption (Suc 0)) = None"
    "raises i ExportButton = None"
    by (rule r, simp add: research_sites_def)+
  have b: "export_clicked i \<Longrightarrow> raises i ShowBalloons = None"
    by (rule r) (simp add: research_sites_def)
  have f: "findings (new_result i) = [tiebreaker_finding, statistics_finding]"
    by (simp add: new_result_def)
  have e: "enumerate 0 [tiebreaker_finding, statistics_finding]
      = [(0, tiebreaker_finding), (1, statistics_finding)]"
    by (simp add: enumerate_eq_zip upt_rec)
  have t: "title tiebreaker_finding @ py '' (Relevance: '' @ float_repr (relevance tiebreaker_finding) @ py '')''
      = py ''Tennis Tiebreaker Regulations (Relevance: 0.95)''"
    "title statistics_finding @ py '' (Relevance: '' @ float_repr (relevance statistics_finding) @ py '')''
      = py ''Match Statistics Analysis (Relevance: 0.82)''"
    "py ''Source: '' @ source tiebreaker_finding = py ''Source: Big 12 Tennis Rulebook''"
    "py ''Source: '' @ source statistics_finding = py ''Source: XII-OS Analytics Database''"
    by (simp_all add: tiebreaker_finding_def statistics_finding_def py_def
        dec_digits.simps [of 0] digit_char_def)
  show ?thesis
    using b
    by (simp add: research_def run_steps.simps(2) Let_def and_then_def st_call_def
        store_results_def skip_def render_def display_results_def show_finding_def
        export_option_def none f e t)
qed

lemma replicate_numeral: "replicate (numeral k) x = x # replicate (pred_numeral k) x"
  by (simp add: numeral_eq_Suc)

lemma newline_indent_levels:
  "newline_indent 0 = [10]"
  "newline_indent (Suc 0) = [10, 32, 32]"
  "newline_indent (Suc (Suc 0)) = [10, 32, 32, 32, 32]"
  "newline_indent (Suc (Suc (Suc 0))) = [10, 32, 32, 32, 32, 32, 32]"
  by (simp_all add: newline_indent_def replicate_numeral)

lemma encoded_keys:
  \<open>encode_basestring_ascii (py ''query'') = py ''"query"''\<close>
  \<open>encode_basestring_ascii (py ''model'') = py ''"model"''\<close>
  \<open>encode_basestring_ascii (py ''timestamp'') = py ''"timestamp"''\<close>
  \<open>encode_basestring_ascii (py ''findings'') = py ''"findings"''\<close>
  \<open>encode_basestring_ascii (py ''title'') = py ''"title"''\<close>
  \<open>encode_basestring_ascii (py ''content'') = py ''"content"''\<close>
  \<open>encode_basestring_ascii (py ''relevance'') = py ''"relevance"''\<close>
  \<open>encode_basestring_ascii (py ''source'') = py ''"source"''\<close>
  by (simp_all add: encode_basestring_ascii_def escape_char_def py_def)

lemma dumps_result_layout:
  \<open>dumps (result_dict r) =
     py ''{'' @ [10]
     @ py ''  "query": '' @ encode_basestring_ascii (query r) @ py '','' @ [10]
     @ py ''  "model": '' @ encode_basestring_ascii (model r) @ py '','' @ [10]
     @ py ''  "timestamp": '' @ encode_basestring_ascii (timestamp r) @ py '','' @ [10]
     @ py ''  "findings": '' @ iterencode 1 (PList (map finding_dict (findings r))) @ [10]
     @ py ''}''\<close>
  by (simp add: dumps_def result_dict_def encoded_keys newline_indent_levels)
     (simp add: py_def)

lemma findings_layout:
  \<open>iterencode 1 (PList (map finding_dict [f, g])) =
     py ''['' @ [10]
     @ py ''    {'' @ [10]
     @ py ''      "title": '' @ encode_basestring_ascii (title f) @ py '','' @ [10]
     @ py ''      "content": '' @ encode_basestring_ascii (content f) @ py '','' @ [10]
     @ py ''      "relevance": '' @ float_repr (relevance f) @ py '','' @ [10]
     @ py ''      "source": '' @ encode_basestring_ascii (source f) @ [10]
     @ py ''    },'' @ [10]
     @ py ''    {'' @ [10]
     @ py ''      "title": '' @ encode_basestring_ascii (title g) @ py '','' @ [10]
     @ py ''      "content": '' @ encode_basestring_ascii (content g) @ py '','' @ [10]
     @ py ''      "relevance": '' @ float_repr (relevance g) @ py '','' @ [10]
     @ py ''      "source": '' @ encode_basestring_ascii (source g) @ [10]
     @ py ''    }'' @ [10]
     @ py ''  ]''\<close>
  by (simp add: finding_dict_def encoded_keys newline_indent_levels)
     (simp add: py_def)

lemma rendered_export_option:
  "raises i ExportButton = None \<Longrightarrow>
   rendered (export_option i (Some r)) =
     DownloadButton (py ''Export Results as JSON'') (dumps (result_dict r))
       (py ''research_results.json'') (py ''application/json'')
     # (if export_clicked i \<and> raises i ShowBalloons = None then [Balloons] else [])"
  by (simp add: export_option_def run_steps.simps(2) Let_def and_then_def st_call_def
      skip_def render_def raise_def split: option.split)

lemma page_results_cases:
  "results (page i st) = st \<or> results (page i st) = Some (new_result i)"
proof -
  define P :: "step \<Rightarrow> bool"
    where "P = (\<lambda>f. \<forall>st. results (f st) = st \<or> results (f st) = Some (new_result i))"
  have run: "list_all P fs \<Longrightarrow> P (run_steps fs)" for fs
  proof (induction fs)
    case Nil
    show ?case by (simp add: P_def skip_def)
  next
    case (Cons f fs)
    then have f: "\<And>st. results (f st) = st \<or> results (f st) = Some (new_result i)"
      and fs: "\<And>st. results (run_steps fs st) = st
                  \<or> results (run_steps fs st) = Some (new_result i)"
      by (simp_all add: P_def)
    show ?case
      unfolding P_def
    proof
      fix st
      show "results (run_steps (f # fs) st) = st
          \<or> results (run_steps (f # fs) st) = Some (new_result i)"
        using f [of st] fs [of "results (f st)"]
        by (cases "raised (f st)") (auto simp: run_steps_Cons)
    qed
  qed
  have keepP: "keeps_results f \<Longrightarrow> P f" for f
    by (simp add: keeps_results_def P_def)
  have "P (submit i)" by (simp add: P_def submit_results)
  then have "P (page i)"
    unfolding page_def
    by (intro run) (simp add: keepP keeps_renders keeps_init_openai keeps_skip)
  then show ?thesis by (simp add: P_def)
qed

lemma session_after_origin:
  "session_after js st = Some r \<Longrightarrow> st = Some r \<or> (\<exists>j \<in> set js. r = new_result j)"
proof (induction js arbitrary: st)
  case Nil
  then show ?case by simp
next
  case (Cons i js)
  from Cons.prems have "session_after js (results (page i st)) = Some r" by simp
  from Cons.IH [OF this] page_results_cases [of i st] show ?case by auto
qed

lemma stored_timestamp_iso:
  assumes "session_after js None = Some r" and "list_all (\<lambda>j. valid_datetime (now j)) js"
  shows "iso8601 (timestamp r)"
proof -
  from session_after_origin [OF assms(1)] obtain j where "j \<in> set js" "r = new_result j"
    by auto
  with assms(2) show ?thesis
    by (auto simp: list_all_iff new_result_def intro: iso8601_isoformat)
qed

lemma page_offers_download:
  assumes "valid_submit i" and "first_raise i (research_sites i) = None"
  shows "DownloadButton (py ''Export Results as JSON'') (dumps (result_dict (new_result i)))
           (py ''research_results.json'') (py ''application/json'')
         \<in> set (rendered (page i st))"
proof -
  have init: "raised (init_openai i st) = None"
    using assms(1) by (simp add: valid_submit_def init_openai_caught)
  have q: "start_research i" "query_text i \<noteq> []"
    using assms(1) by (simp_all add: valid_submit_def py_not_def)
  have r: "raised (research i st) = None" using assms(2) by (simp add: raised_research)
  then have sub: "submit i st = research i st"
    using q by (simp add: submit_def py_not_def try_except_Exception_def)
  have "raised ((if start_research i then submit i else skip) st) = None"
    using q r sub by simp
  from page_completes(2) [OF init this] q sub
  have "rendered (page i st) = rendered (init_openai i st) @ heading
          @ rendered (research i st) @ footer" by simp
  then show ?thesis by (simp add: rendered_research [OF assms(2)])
qed

lemma sample_timestamp: "isoformat sample_now = py ''2024-05-17T09:30:05.120034''"
  by (simp add: isoformat_def sample_now_def zero_pad_def Let_def py_def digit_char_def
      dec_digits.simps [of 2024] dec_digits.simps [of 202] dec_digits.simps [of 20]
      dec_digits.simps [of 2] dec_digits.simps [of 5] dec_digits.simps [of 0]
      dec_digits.simps [of 17] dec_digits.simps [of 1] dec_digits.simps [of "Suc 0"] dec_digits.simps [of 9]
      dec_digits.simps [of 30] dec_digits.simps [of 3] dec_digits.simps [of 120034]
      dec_digits.simps [of 12003] dec_digits.simps [of 1200] dec_digits.simps [of 120]
      dec_digits.simps [of 12])

section \<open>\<open>loads\<close> reads back what \<open>dumps\<close> writes\<close>

subsection \<open>Strings\<close>

lemma hex_value_hex_digit: "d < 16 \<Longrightarrow> hex_value (hex_digit d) = Some d"
  by (simp add: hex_value_def hex_digit_def)

lemma hex4_value:
  fixes n :: nat
  assumes "n < 65536"
  shows "((n div 4096 mod 16 * 16 + n div 256 mod 16) * 16 + n div 16 mod 16) * 16 + n mod 16 = n"
proof -
  define q1 where "q1 = n div 16"
  define q2 where "q2 = q1 div 16"
  define q3 where "q3 = q2 div 16"
  have e: "n div 16 = q1" "n div 256 = q2" "n div 4096 = q3"
    by (simp_all add: q1_def q2_def q3_def div_mult2_eq)
  have "q3 < 16" using assms e(3) by simp
  then have "q3 mod 16 = q3" by simp
  moreover have "q3 * 16 + q2 mod 16 = q2" by (simp add: q3_def)
  moreover have "q2 * 16 + q1 mod 16 = q1" by (simp add: q2_def)
  moreover have "q1 * 16 + n mod 16 = n" by (simp add: q1_def)
  ultimately show ?thesis by (simp add: e)
qed

lemma decode_hex_digits:
  "a < 16 \<Longrightarrow> b < 16 \<Longrightarrow> c < 16 \<Longrightarrow> d < 16 \<Longrightarrow>
   decode_uXXXX (hex_digit a # hex_digit b # hex_digit c # hex_digit d # rest)
     = Some (((a * 16 + b) * 16 + c) * 16 + d)"
  by (simp add: decode_uXXXX_def hex_value_hex_digit)

lemma decode_u_escape:
  assumes "n < 65536"
  shows "decode_uXXXX (drop 2 (u_escape n) @ rest) = Some n"
proof -
  have "decode_uXXXX (drop 2 (u_escape n) @ rest)
      = Some (((n div 4096 mod 16 * 16 + n div 256 mod 16) * 16 + n div 16 mod 16) * 16
              + n mod 16)"
    unfolding u_escape_def by (simp del: mod_less add: decode_hex_digits)
  then show ?thesis by (simp only: hex4_value [OF assms])
qed

lemma u_escape_shape:
  "\<exists>h. u_escape n = 92 # 117 # h \<and> length h = 4 \<and> h = drop 2 (u_escape n)"
  by (simp add: u_escape_def)

lemma scan_u_general:
  assumes "decode_uXXXX (h @ tail) = Some n" and "length h = 4"
    and "\<not> (55296 \<le> n \<and> n \<le> 56319)"
  shows "scanstring (92 # 117 # h @ tail) = prepend n (scanstring tail)"
  using assms by auto

lemma scan_u_escape:
  assumes "n < 65536" and "\<not> (55296 \<le> n \<and> n \<le> 56319)"
  shows "scanstring (u_escape n @ tail) = prepend n (scanstring tail)"
proof -
  obtain h where h: "u_escape n = 92 # 117 # h" "length h = 4" "h = drop 2 (u_escape n)"
    using u_escape_shape by blast
  have "decode_uXXXX (h @ tail) = Some n"
    unfolding h(3) using assms(1) by (rule decode_u_escape)
  from scan_u_general [OF this h(2) assms(2)] show ?thesis by (simp add: h(1))
qed

lemma scan_pair_general:
  assumes "decode_uXXXX (h @ 92 # 117 # l @ tail) = Some hi" and "length h = 4"
    and "decode_uXXXX (l @ tail) = Some lo" and "length l = 4"
    and "55296 \<le> hi" "hi \<le> 56319" "56320 \<le> lo" "lo \<le> 57343"
  shows "scanstring (92 # 117 # h @ 92 # 117 # l @ tail)
           = prepend (65536 + ((hi - 55296) * 1024 + (lo - 56320))) (scanstring tail)"
  using assms by simp

lemma scan_surrogate_pair:
  assumes "55296 \<le> hi" "hi \<le> 56319" "56320 \<le> lo" "lo \<le> 57343"
  shows "scanstring (u_escape hi @ u_escape lo @ tail)
           = prepend (65536 + ((hi - 55296) * 1024 + (lo - 56320))) (scanstring tail)"
proof -
  obtain h where h: "u_escape hi = 92 # 117 # h" "length h = 4" "h = drop 2 (u_escape hi)"
    using u_escape_shape by blast
  obtain l where l: "u_escape lo = 92 # 117 # l" "length l = 4" "l = drop 2 (u_escape lo)"
    using u_escape_shape by blast
  have hi: "hi < 65536" and lo: "lo < 65536" using assms by simp_all
  have dh: "decode_uXXXX (h @ 92 # 117 # l @ tail) = Some hi"
    unfolding h(3) using hi by (rule decode_u_escape)
  have dl: "decode_uXXXX (l @ tail) = Some lo"
    unfolding l(3) using lo by (rule decode_u_escape)
  from scan_pair_general [OF dh h(2) dl l(2) assms] show ?thesis
    by (simp add: h(1) l(1))
qed

lemma scan_escape_char:
  assumes "c < 1114112" and "\<not> is_high c"
  shows "scanstring (escape_char c @ tail) = prepend c (scanstring tail)"
proof -
  consider (short) "c = 34 \<or> c = 92 \<or> c = 8 \<or> c = 12 \<or> c = 10 \<or> c = 13 \<or> c = 9"
    | (plain) "32 \<le> c" "c \<le> 126" "c \<noteq> 34" "c \<noteq> 92"
    | (bmp) "c \<noteq> 34" "c \<noteq> 92" "c \<noteq> 8" "c \<noteq> 12" "c \<noteq> 10" "c \<noteq> 13" "c \<noteq> 9"
        "\<not> (32 \<le> c \<and> c \<le> 126)" "c < 65536"
    | (astral) "65536 \<le> c"
    by linarith
  then show ?thesis
  proof cases
    case short
    then show ?thesis by (auto simp: escape_char_def backslash_def)
  next
    case plain
    then show ?thesis by (simp add: escape_char_def)
  next
    case bmp
    have "\<not> (55296 \<le> c \<and> c \<le> 56319)" using assms(2) by (simp add: is_high_def)
    from scan_u_escape [OF bmp(9) this] bmp show ?thesis
      by (simp add: escape_char_def)
  next
    case astral
    define m where "m = c - 65536"
    have m: "m < 1048576" using assms astral by (simp add: m_def)
    then have hi: "m div 1024 < 1024" by simp
    then have q: "m div 1024 mod 1024 = m div 1024" by simp
    have r: "m mod 1024 < 1024" by simp
    have recombine: "65536 + m = c"
      using astral by (simp add: m_def)
    have "scanstring (u_escape (55296 + m div 1024) @ u_escape (56320 + m mod 1024) @ tail)
        = prepend (65536 + ((55296 + m div 1024 - 55296) * 1024 + (56320 + m mod 1024 - 56320)))
            (scanstring tail)"
      using hi r by (intro scan_surrogate_pair) simp_all
    then have "scanstring (u_escape (55296 + m div 1024) @ u_escape (56320 + m mod 1024) @ tail)
        = prepend c (scanstring tail)"
      by (simp add: recombine)
    moreover have "escape_char c
        = u_escape (55296 + m div 1024) @ u_escape (56320 + m mod 1024)"
      using astral by (simp add: escape_char_def m_def [symmetric] q)
    ultimately show ?thesis by simp
  qed
qed

lemma scan_high_general:
  assumes "decode_uXXXX (h @ tail) = Some n" and "length h = 4" and "is_high n"
    and "take 2 tail \<noteq> [92, 117]
         \<or> (\<exists>u. decode_uXXXX (drop 2 tail) = Some u \<and> \<not> is_low u)"
  shows "scanstring (92 # 117 # h @ tail) = prepend n (scanstring tail)"
  using assms by (auto simp: is_high_def is_low_def)

lemma scan_lone_high:
  assumes "is_high c"
    and "take 2 tail \<noteq> [92, 117]
         \<or> (\<exists>u. decode_uXXXX (drop 2 tail) = Some u \<and> \<not> is_low u)"
  shows "scanstring (u_escape c @ tail) = prepend c (scanstring tail)"
proof -
  obtain h where h: "u_escape c = 92 # 117 # h" "length h = 4" "h = drop 2 (u_escape c)"
    using u_escape_shape by blast
  have "c < 65536" using assms(1) by (simp add: is_high_def)
  then have "decode_uXXXX (h @ tail) = Some c"
    unfolding h(3) by (rule decode_u_escape)
  from scan_high_general [OF this h(2) assms] show ?thesis by (simp add: h(1))
qed

lemma u_head:
  assumes "decode_uXXXX (h @ tail) = Some u" and "\<not> is_low u"
  shows "take 2 (92 # 117 # h @ tail) \<noteq> [92, 117]
         \<or> (\<exists>u. decode_uXXXX (drop 2 (92 # 117 # h @ tail)) = Some u \<and> \<not> is_low u)"
  using assms by simp

lemma escape_head:
  assumes "c < 1114112" and "\<not> is_low c"
  shows "take 2 (escape_char c @ tail) \<noteq> [92, 117]
         \<or> (\<exists>u. decode_uXXXX (drop 2 (escape_char c @ tail)) = Some u \<and> \<not> is_low u)"
proof -
  consider (short) "c = 34 \<or> c = 92 \<or> c = 8 \<or> c = 12 \<or> c = 10 \<or> c = 13 \<or> c = 9"
    | (plain) "32 \<le> c" "c \<le> 126" "c \<noteq> 34" "c \<noteq> 92"
    | (bmp) "c \<noteq> 34" "c \<noteq> 92" "c \<noteq> 8" "c \<noteq> 12" "c \<noteq> 10" "c \<noteq> 13" "c \<noteq> 9"
        "\<not> (32 \<le> c \<and> c \<le> 126)" "c < 65536"
    | (astral) "65536 \<le> c"
    by linarith
  then show ?thesis
  proof cases
    case short
    then have "take 2 (escape_char c @ tail) \<noteq> [92, 117]"
      by (elim disjE) (simp_all add: escape_char_def)
    then show ?thesis ..
  next
    case plain
    then have "take 2 (escape_char c @ tail) \<noteq> [92, 117]"
      by (simp add: escape_char_def)
    then show ?thesis ..
  next
    case bmp
    obtain h where h: "u_escape c = 92 # 117 # h" "length h = 4" "h = drop 2 (u_escape c)"
      using u_escape_shape by blast
    have e: "escape_char c = 92 # 117 # h"
      using bmp by (simp add: escape_char_def h(1))
    have "decode_uXXXX (h @ tail) = Some c"
      unfolding h(3) using bmp(9) by (rule decode_u_escape)
    from u_head [OF this assms(2)] show ?thesis by (simp only: e append_Cons)
  next
    case astral
    define m where "m = c - 65536"
    define hi where "hi = 55296 + m div 1024 mod 1024"
    obtain h where h: "u_escape hi = 92 # 117 # h" "length h = 4" "h = drop 2 (u_escape hi)"
      using u_escape_shape by blast
    have lt: "m div 1024 mod 1024 < 1024" by simp
    then have hi: "hi < 65536" "\<not> is_low hi" by (simp_all add: hi_def is_low_def)
    have d: "decode_uXXXX (h @ u_escape (56320 + m mod 1024) @ tail) = Some hi"
      unfolding h(3) using hi(1) by (rule decode_u_escape)
    have "escape_char c = u_escape hi @ u_escape (56320 + m mod 1024)"
      using astral by (simp add: escape_char_def m_def hi_def)
    then have e: "escape_char c @ tail = 92 # 117 # h @ u_escape (56320 + m mod 1024) @ tail"
      by (simp add: h(1))
    from u_head [OF d hi(2)] show ?thesis by (simp only: e)
  qed
qed

lemma escape_surrogate: "is_high c \<or> is_low c \<Longrightarrow> escape_char c = u_escape c"
  by (auto simp: escape_char_def is_high_def is_low_def)

lemma scanstring_merges:
  "is_str s \<Longrightarrow>
   scanstring (concat (map escape_char s) @ 34 # rest) = Some (merge_pairs s, rest)"
proof (induction s rule: merge_pairs.induct)
  case (1 h l s)
  from "1.prems" have h: "h < 1114112" and l: "l < 1114112" and s: "is_str s" "is_str (l # s)"
    by (simp_all add: is_str_def)
  show ?case
  proof (cases "is_high h \<and> is_low l")
    case True
    then have b: "55296 \<le> h" "h \<le> 56319" "56320 \<le> l" "l \<le> 57343"
      by (simp_all add: is_high_def is_low_def)
    have "scanstring (u_escape h @ u_escape l @ concat (map escape_char s) @ 34 # rest)
        = prepend (65536 + ((h - 55296) * 1024 + (l - 56320)))
            (scanstring (concat (map escape_char s) @ 34 # rest))"
      using b by (rule scan_surrogate_pair)
    with True "1.IH"(1) [OF True s(1)] show ?thesis
      by (simp add: escape_surrogate prepend_def)
  next
    case False
    note ih = "1.IH"(2) [OF False s(2)]
    have "scanstring (escape_char h @ concat (map escape_char (l # s)) @ 34 # rest)
        = prepend h (scanstring (concat (map escape_char (l # s)) @ 34 # rest))"
    proof (cases "is_high h")
      case True
      with False have "\<not> is_low l" by simp
      from escape_head [OF l this, of "concat (map escape_char s) @ 34 # rest"]
      have "take 2 (concat (map escape_char (l # s)) @ 34 # rest) \<noteq> [92, 117]
         \<or> (\<exists>u. decode_uXXXX (drop 2 (concat (map escape_char (l # s)) @ 34 # rest)) = Some u
                \<and> \<not> is_low u)"
        by simp
      from scan_lone_high [OF True this] True show ?thesis by (simp add: escape_surrogate)
    next
      case False
      with h show ?thesis by (intro scan_escape_char)
    qed
    moreover from False have "merge_pairs (h # l # s) = h # merge_pairs (l # s)"
      by (simp only: merge_pairs.simps if_False)
    ultimately show ?thesis using ih by (simp add: prepend_def del: merge_pairs.simps)
  qed
next
  case 2
  show ?case by simp
next
  case (3 v)
  then have v: "v < 1114112" by (simp add: is_str_def)
  have "scanstring (escape_char v @ 34 # rest) = prepend v (scanstring (34 # rest))"
  proof (cases "is_high v")
    case True
    have "take 2 (34 # rest) \<noteq> [92, 117]
         \<or> (\<exists>u. decode_uXXXX (drop 2 (34 # rest)) = Some u \<and> \<not> is_low u)"
      by simp
    from scan_lone_high [OF True this] True show ?thesis by (simp add: escape_surrogate)
  next
    case False
    with v show ?thesis by (intro scan_escape_char)
  qed
  then show ?case by (simp add: prepend_def)
qed

lemma merged_text:
  "concat (map escape_char (merge_pairs s)) = concat (map escape_char s)"
proof (induction s rule: merge_pairs.induct)
  case (1 h l s)
  show ?case
  proof (cases "is_high h \<and> is_low l")
    case True
    then have b: "55296 \<le> h" "h \<le> 56319" "56320 \<le> l" "l \<le> 57343"
      by (simp_all add: is_high_def is_low_def)
    define a where "a = h - 55296"
    define d where "d = l - 56320"
    have a: "a < 1024" "h = 55296 + a" and d: "d < 1024" "l = 56320 + d"
      using b by (simp_all add: a_def d_def)
    have "escape_char (65536 + (a * 1024 + d)) = u_escape h @ u_escape l"
      using a d by (simp add: escape_char_def)
    with True "1.IH"(1) [OF True] show ?thesis
      by (simp add: escape_surrogate a_def d_def)
  next
    case False
    then have "merge_pairs (h # l # s) = h # merge_pairs (l # s)"
      by (simp only: merge_pairs.simps if_False)
    with "1.IH"(2) [OF False] show ?thesis by (simp del: merge_pairs.simps)
  qed
qed simp_all

lemma is_str_merged: "is_str s \<Longrightarrow> is_str (merge_pairs s)"
proof (induction s rule: merge_pairs.induct)
  case (1 h l s)
  then show ?case by (auto simp: is_str_def is_high_def is_low_def)
qed simp_all

lemma scanstring_encoded:
  "unpaired s \<Longrightarrow> scanstring (concat (map escape_char s) @ 34 # rest) = Some (s, rest)"
  using scanstring_merges [of s rest] by (simp add: unpaired_def)

subsection \<open>Numbers\<close>

lemma dec_digits_lt_10: "list_all (\<lambda>d. d < 10) (dec_digits n)"
proof (induction n rule: dec_digits.induct)
  case (1 n)
  then show ?case by (subst dec_digits.simps) simp
qed

lemma dec_digits_zero: "dec_digits 0 = [0]"
  by (simp add: dec_digits.simps [of 0])

lemma dec_digits_hd: "0 < n \<Longrightarrow> \<exists>d ds. dec_digits n = d # ds \<and> 0 < d \<and> d < 10"
proof (induction n rule: dec_digits.induct)
  case (1 n)
  show ?case
  proof (cases "n < 10")
    case True
    with "1.prems" show ?thesis by (simp add: dec_digits.simps [of n])
  next
    case False
    then have "0 < n div 10" by simp
    with "1.IH" False obtain d ds where "dec_digits (n div 10) = d # ds" "0 < d" "d < 10"
      by auto
    with False show ?thesis by (simp add: dec_digits.simps [of n])
  qed
qed

lemma digits_value_dec_digits: "digits_value (map digit_char (dec_digits n)) = n"
proof (induction n rule: dec_digits.induct)
  case (1 n)
  show ?case
  proof (cases "n < 10")
    case True
    then show ?thesis by (simp add: dec_digits.simps [of n] digits_value_def digit_char_def)
  next
    case False
    with "1.IH" have "digits_value (map digit_char (dec_digits (n div 10))) = n div 10"
      by simp
    moreover have "digit_char (n mod 10) - 48 = n mod 10" by (simp add: digit_char_def)
    ultimately show ?thesis
      using False by (simp add: dec_digits.simps [of n] digits_value_snoc)
  qed
qed

lemma takeWhile_digits:
  assumes "list_all (\<lambda>d. d < 10) ds" and "\<not> (case rest of [] \<Rightarrow> False | c # _ \<Rightarrow> is_digit c)"
  shows "takeWhile is_digit (map digit_char ds @ rest) = map digit_char ds"
    and "dropWhile is_digit (map digit_char ds @ rest) = rest"
proof -
  have all: "\<forall>c \<in> set (map digit_char ds). is_digit c"
    using assms(1) by (auto simp: list_all_iff is_digit_def digit_char_def)
  have stop: "takeWhile is_digit rest = []" "dropWhile is_digit rest = rest"
    using assms(2) by (cases rest; simp)+
  show "takeWhile is_digit (map digit_char ds @ rest) = map digit_char ds"
    using all stop(1) by (simp add: takeWhile_append2 del: set_map)
  show "dropWhile is_digit (map digit_char ds @ rest) = rest"
    using all stop(2) by (simp add: dropWhile_append2 del: set_map)
qed

lemma undigit: "map ((\<lambda>c. c - 48) \<circ> digit_char) ds = ds"
  by (induction ds) (simp_all add: digit_char_def)

lemma match_number_float_repr:
  assumes "plain_repr (Decimal w ds)" and "follows rest"
  shows "match_number (float_repr (Decimal w ds) @ rest) = Some (PFloat (Decimal w ds), rest)"
proof -
  let ?int = "map digit_char (dec_digits w)"
  let ?s = "?int @ 46 # map digit_char ds @ rest"
  from assms(1) have ds: "list_all (\<lambda>d. d < 10) ds" and sh: "shortest ds = ds"
    by (simp_all add: plain_repr_def)
  from sh have ne: "ds \<noteq> []" by (auto simp: shortest_def Let_def split: if_splits)
  have rest: "\<not> (case rest of [] \<Rightarrow> False | c # _ \<Rightarrow> is_digit c)" "\<not> has_exponent rest"
    using assms(2) by (auto simp: follows_def is_digit_def has_exponent_def split: list.splits)
  have int: "(if starts_with 48 ?s then [48] else takeWhile is_digit ?s) = ?int"
  proof (cases "w = 0")
    case True
    then show ?thesis by (simp add: dec_digits_zero digit_char_def)
  next
    case False
    then obtain d dd where d: "dec_digits w = d # dd" "0 < d" "d < 10"
      using dec_digits_hd [of w] by auto
    have "takeWhile is_digit (?int @ 46 # map digit_char ds @ rest) = ?int"
      using takeWhile_digits(1) [OF dec_digits_lt_10, of "46 # map digit_char ds @ rest" w]
      by (simp add: is_digit_def)
    moreover have "\<not> starts_with 48 ?s" using d by (simp add: digit_char_def)
    ultimately show ?thesis by simp
  qed
  have frac: "takeWhile is_digit (map digit_char ds @ rest) = map digit_char ds"
    "dropWhile is_digit (map digit_char ds @ rest) = rest"
    using takeWhile_digits [OF ds rest(1)] by simp_all
  have intne: "?int \<noteq> []" using length_dec_digits_pos [of w] by simp
  have "match_number ?s = Some (PFloat (Decimal w ds), rest)"
    unfolding match_number_def int Let_def
    using intne ne rest(2) assms(1)
    by (simp add: frac digits_value_dec_digits undigit sh)
  then show ?thesis by simp
qed

subsection \<open>More fuel never changes an answer\<close>

declare parse_value.simps(2) [simp del] parse_array.simps(2) [simp del] parse_object.simps(2) [simp del]

lemma parse_mono_Suc:
  "(parse_value n s = Some a \<longrightarrow> parse_value (Suc n) s = Some a)
   \<and> (parse_array n s = Some b \<longrightarrow> parse_array (Suc n) s = Some b)
   \<and> (parse_object n s = Some c \<longrightarrow> parse_object (Suc n) s = Some c)"
proof (induction n arbitrary: s a b c)
  case 0
  show ?case by simp
next
  case (Suc n)
  have v: "parse_value n s' = Some a' \<Longrightarrow> parse_value (Suc n) s' = Some a'" for s' a'
    using Suc by blast
  have ar: "parse_array n s' = Some b' \<Longrightarrow> parse_array (Suc n) s' = Some b'" for s' b'
    using Suc by blast
  have ob: "parse_object n s' = Some c' \<Longrightarrow> parse_object (Suc n) s' = Some c'" for s' c'
    using Suc by blast
  have 1: "parse_value (Suc (Suc n)) s = Some a" if h: "parse_value (Suc n) s = Some a"
  proof -
    consider (str) "starts_with 34 s"
      | (arr) "\<not> starts_with 34 s" "starts_with 91 s"
      | (obj) "\<not> starts_with 34 s" "\<not> starts_with 91 s" "starts_with 123 s"
      | (num) "\<not> starts_with 34 s" "\<not> starts_with 91 s" "\<not> starts_with 123 s"
      by blast
    then show ?thesis
    proof cases
      case str
      with h show ?thesis by (simp add: parse_value.simps(2) Let_def)
    next
      case arr
      show ?thesis
      proof (cases "starts_with 93 (skip_ws (tl s))")
        case True
        with h arr show ?thesis by (simp add: parse_value.simps(2) Let_def)
      next
        case False
        with h arr obtain b' where "parse_array n (skip_ws (tl s)) = Some b'"
          and a: "a = (PList (fst b'), snd b')"
          by (auto simp: parse_value.simps(2) Let_def)
        from ar [OF this(1)] a arr False show ?thesis
          by (simp add: parse_value.simps(2) [of "Suc n"] Let_def)
      qed
    next
      case obj
      show ?thesis
      proof (cases "starts_with 125 (skip_ws (tl s))")
        case True
        with h obj show ?thesis by (simp add: parse_value.simps(2) Let_def)
      next
        case False
        with h obj obtain c' where "parse_object n (skip_ws (tl s)) = Some c'"
          and a: "a = (PDict (dict_of (fst c')), snd c')"
          by (auto simp: parse_value.simps(2) Let_def)
        from ob [OF this(1)] a obj False show ?thesis
          by (simp add: parse_value.simps(2) [of "Suc n"] Let_def)
      qed
    next
      case num
      with h show ?thesis by (simp add: parse_value.simps(2) Let_def)
    qed
  qed
  have 2: "parse_array (Suc (Suc n)) s = Some b" if h: "parse_array (Suc n) s = Some b"
  proof -
    from h obtain x r where x: "parse_value n s = Some (x, r)"
      by (auto simp: parse_array.simps(2) Let_def split: option.splits)
    note x' = v [OF x]
    show ?thesis
    proof (cases "starts_with 93 (skip_ws r)")
      case True
      with h x x' show ?thesis by (simp add: parse_array.simps(2) Let_def)
    next
      case False
      with h x obtain b' where c: "starts_with 44 (skip_ws r)"
        and "parse_array n (skip_ws (tl (skip_ws r))) = Some b'"
        and b: "b = (x # fst b', snd b')"
        by (auto simp: parse_array.simps(2) Let_def split: if_splits)
      from ar [OF this(2)] b c x' False show ?thesis
        by (simp add: parse_array.simps(2) [of "Suc n"] Let_def)
    qed
  qed
  have 3: "parse_object (Suc (Suc n)) s = Some c" if h: "parse_object (Suc n) s = Some c"
  proof -
    from h have q: "starts_with 34 s"
      by (auto simp: parse_object.simps(2) Let_def split: if_splits)
    with h obtain k r where k: "scanstring (tl s) = Some (k, r)"
      by (auto simp: parse_object.simps(2) Let_def split: option.splits)
    with h q have col: "starts_with 58 (skip_ws r)"
      by (auto simp: parse_object.simps(2) Let_def split: if_splits)
    with h q k obtain x r2 where x: "parse_value n (skip_ws (tl (skip_ws r))) = Some (x, r2)"
      by (auto simp: parse_object.simps(2) Let_def split: option.splits)
    note x' = v [OF x]
    show ?thesis
    proof (cases "starts_with 125 (skip_ws r2)")
      case True
      with h q k col x x' show ?thesis by (simp add: parse_object.simps(2) Let_def)
    next
      case False
      with h q k col x obtain c' where cm: "starts_with 44 (skip_ws r2)"
        and "parse_object n (skip_ws (tl (skip_ws r2))) = Some c'"
        and c: "c = ((k, x) # fst c', snd c')"
        by (auto simp: parse_object.simps(2) Let_def split: if_splits)
      from ob [OF this(2)] c cm q k col x' False show ?thesis
        by (simp add: parse_object.simps(2) [of "Suc n"] Let_def)
    qed
  qed
  from 1 2 3 show ?case by blast
qed

lemma parse_mono:
  assumes "n \<le> m"
  shows "parse_value n s = Some a \<Longrightarrow> parse_value m s = Some a"
    and "parse_array n s = Some b \<Longrightarrow> parse_array m s = Some b"
    and "parse_object n s = Some c \<Longrightarrow> parse_object m s = Some c"
  using assms
proof (induction m)
  case 0
  { case 1 then show ?case by simp
  next case 2 then show ?case by simp
  next case 3 then show ?case by simp }
next
  case (Suc m)
  { case 1 then show ?case
      using Suc.IH(1) parse_mono_Suc [of m s a] by (cases "n = Suc m") auto
  next case 2 then show ?case
      using Suc.IH(2) parse_mono_Suc [of m s _ b] by (cases "n = Suc m") auto
  next case 3 then show ?case
      using Suc.IH(3) parse_mono_Suc [of m s _ _ c] by (cases "n = Suc m") auto }
qed

subsection \<open>Values, arrays and objects\<close>

lemma value_start_not_ws: "value_start c \<Longrightarrow> \<not> is_ws c \<and> c \<noteq> 93 \<and> c \<noteq> 125"
  by (auto simp: value_start_def is_ws_def is_digit_def)

lemma float_repr_head: "\<exists>c r. float_repr x = c # r \<and> is_digit c"
proof (cases x)
  case (Decimal w ds)
  obtain d dd where d: "dec_digits w = d # dd"
    using length_dec_digits_pos [of w] by (cases "dec_digits w") auto
  with dec_digits_lt_10 [of w] have "d < 10" by simp
  with Decimal d show ?thesis by (simp add: is_digit_def digit_char_def)
qed

lemma iterencode_head: "\<exists>c r. iterencode lvl v = c # r \<and> value_start c"
proof (cases v)
  case (PStr s)
  then show ?thesis by (simp add: encode_basestring_ascii_def value_start_def)
next
  case (PFloat x)
  with float_repr_head [of x] show ?thesis by (auto simp: value_start_def)
next
  case (PList vs)
  then show ?thesis by (simp add: value_start_def py_def)
next
  case (PDict kvs)
  then show ?thesis by (simp add: value_start_def py_def)
qed

lemma iterencode_list_head:
  "vs \<noteq> [] \<Longrightarrow> \<exists>c r. iterencode_list lvl vs = c # r \<and> value_start c"
proof (cases vs)
  case Nil
  assume "vs \<noteq> []"
  with Nil show ?thesis by simp
next
  case (Cons v vs')
  obtain c r where "iterencode lvl v = c # r" "value_start c"
    using iterencode_head by blast
  with Cons show ?thesis by simp
qed

lemma iterencode_dict_head:
  "kvs \<noteq> [] \<Longrightarrow> \<exists>r. iterencode_dict lvl kvs = 34 # r"
  by (cases kvs) (simp_all add: encode_basestring_ascii_def)

lemma skip_ws_indent: "skip_ws (newline_indent k @ s) = skip_ws s"
proof -
  have "skip_ws (replicate n 32 @ s) = skip_ws s" for n
    by (induction n) (simp_all add: is_ws_def)
  then show ?thesis by (simp add: newline_indent_def is_ws_def)
qed

lemma skip_ws_stop: "\<not> is_ws c \<Longrightarrow> skip_ws (c # s) = c # s"
  by simp

lemma setitem_fresh: "k \<notin> fst ` set d \<Longrightarrow> setitem k v d = d @ [(k, v)]"
  by (induction d) auto

lemma dict_of_distinct:
  "distinct (map fst kvs) \<Longrightarrow> dict_of kvs = kvs"
proof -
  have "distinct (map fst (d @ ps)) \<Longrightarrow>
        foldl (\<lambda>d p. setitem (fst p) (snd p) d) d ps = d @ ps" for d ps
  proof (induction ps arbitrary: d)
    case Nil
    show ?case by simp
  next
    case (Cons p ps)
    from Cons.prems have fresh: "fst p \<notin> fst ` set d" by auto
    from Cons.prems have "distinct (map fst ((d @ [p]) @ ps))" by simp
    from Cons.IH [OF this] show ?case
      by (simp add: setitem_fresh [OF fresh])
  qed
  from this [of "[]" kvs] show "distinct (map fst kvs) \<Longrightarrow> dict_of kvs = kvs"
    by (simp add: dict_of_def)
qed

lemma parse_string_value:
  "unpaired s \<Longrightarrow>
   parse_value (Suc n) (encode_basestring_ascii s @ rest) = Some (PStr s, rest)"
  by (simp add: parse_value.simps(2) encode_basestring_ascii_def scanstring_encoded)

lemma parse_float_value:
  assumes "plain_repr x" and "follows rest"
  shows "parse_value (Suc n) (float_repr x @ rest) = Some (PFloat x, rest)"
proof -
  obtain c r where c: "float_repr x = c # r" "is_digit c"
    using float_repr_head by blast
  then have "\<not> starts_with 34 (float_repr x @ rest)" "\<not> starts_with 91 (float_repr x @ rest)"
    "\<not> starts_with 123 (float_repr x @ rest)"
    by (auto simp: is_digit_def)
  moreover have "match_number (float_repr x @ rest) = Some (PFloat x, rest)"
    using assms match_number_float_repr by (cases x) simp
  ultimately show ?thesis by (simp add: parse_value.simps(2))
qed

lemma follows_simps:
  "follows []" "follows (44 # s)" "follows (10 # s)" "follows (newline_indent k @ s)"
  by (simp_all add: follows_def newline_indent_def)

lemma roundtrip:
  "well_formed v \<Longrightarrow> follows rest \<Longrightarrow>
     parse_value (cost v) (iterencode lvl v @ rest) = Some (v, rest)"
  "vs \<noteq> [] \<Longrightarrow> well_formed_list vs \<Longrightarrow>
     parse_array (cost_list vs) (iterencode_list lvl vs @ rest) = Some (vs, rest)"
  "kvs \<noteq> [] \<Longrightarrow> well_formed_dict kvs \<Longrightarrow>
     parse_object (cost_dict kvs) (iterencode_dict lvl kvs @ rest) = Some (kvs, rest)"
proof (induction lvl v and lvl vs and lvl kvs arbitrary: rest and rest and rest
       rule: iterencode_iterencode_list_iterencode_dict.induct)
  case (1 lvl s)
  then show ?case by (simp add: parse_string_value)
next
  case (2 lvl x)
  then show ?case by (simp add: parse_float_value)
next
  case (3 lvl vs)
  show ?case
  proof (cases "vs = []")
    case True
    then show ?thesis by (simp add: parse_value.simps(2) py_def is_ws_def)
  next
    case False
    obtain c r where c: "iterencode_list (Suc lvl) vs = c # r" "value_start c"
      using iterencode_list_head [OF False] by blast
    have skip: "skip_ws (newline_indent (Suc lvl) @ iterencode_list (Suc lvl) vs @ rest)
        = iterencode_list (Suc lvl) vs @ rest"
      using c value_start_not_ws [OF c(2)] by (simp add: skip_ws_indent)
    have nb: "\<not> starts_with 93 (iterencode_list (Suc lvl) vs @ rest)"
      using c value_start_not_ws [OF c(2)] by simp
    from "3.prems" have "well_formed_list vs" by simp
    from "3.IH" [OF False False this]
    have "parse_array (cost_list vs) (iterencode_list (Suc lvl) vs @ rest) = Some (vs, rest)" .
    with False skip nb show ?thesis
      by (simp add: parse_value.simps(2) py_def)
  qed
next
  case (4 lvl kvs)
  show ?case
  proof (cases "kvs = []")
    case True
    then show ?thesis by (simp add: parse_value.simps(2) py_def is_ws_def)
  next
    case False
    obtain r where c: "iterencode_dict (Suc lvl) kvs = 34 # r"
      using iterencode_dict_head [OF False] by blast
    have skip: "skip_ws (newline_indent (Suc lvl) @ iterencode_dict (Suc lvl) kvs @ rest)
        = iterencode_dict (Suc lvl) kvs @ rest"
      using c by (simp add: skip_ws_indent is_ws_def)
    have nb: "\<not> starts_with 125 (iterencode_dict (Suc lvl) kvs @ rest)"
      using c by simp
    from "4.prems" have wf: "well_formed_dict kvs" and dist: "distinct (map fst kvs)"
      by simp_all
    from "4.IH" [OF False False wf]
    have "parse_object (cost_dict kvs) (iterencode_dict (Suc lvl) kvs @ rest) = Some (kvs, rest)" .
    with False skip nb show ?thesis
      by (simp add: parse_value.simps(2) py_def dict_of_distinct [OF dist])
  qed
next
  case (5 lvl)
  then show ?case by simp
next
  case (6 lvl v vs)
  let ?n = "cost v + cost_list vs"
  let ?sep = "(if vs = [] then [] else py '','' @ newline_indent lvl)"
  let ?rest' = "?sep @ iterencode_list lvl vs @ rest"
  from "6.prems" have wv: "well_formed v" and wvs: "well_formed_list vs" by simp_all
  have f: "follows ?rest'" by (simp add: follows_simps py_def)
  have "parse_value (cost v) (iterencode lvl v @ ?rest') = Some (v, ?rest')"
    using wv f by (rule "6.IH"(1))
  then have pv: "parse_value ?n (iterencode lvl v @ ?rest') = Some (v, ?rest')"
    by (rule parse_mono(1) [rotated]) simp
  show ?case
  proof (cases "vs = []")
    case True
    have "skip_ws (newline_indent (lvl - 1) @ 93 # rest) = 93 # rest"
      by (simp add: skip_ws_indent is_ws_def)
    with pv True show ?thesis
      by (simp add: parse_array.simps(2) py_def)
  next
    case False
    obtain c r where c: "iterencode_list lvl vs = c # r" "value_start c"
      using iterencode_list_head [OF False] by blast
    have skip: "skip_ws (newline_indent lvl @ iterencode_list lvl vs @ rest)
        = iterencode_list lvl vs @ rest"
      using c value_start_not_ws [OF c(2)] by (simp add: skip_ws_indent)
    have "parse_array (cost_list vs) (iterencode_list lvl vs @ rest) = Some (vs, rest)"
      using False wvs by (rule "6.IH"(2))
    then have pa: "parse_array ?n (iterencode_list lvl vs @ rest) = Some (vs, rest)"
      by (rule parse_mono(2) [rotated]) simp
    from pv False skip pa show ?thesis
      by (simp add: parse_array.simps(2) py_def is_ws_def)
  qed
next
  case (7 lvl)
  then show ?case by simp
next
  case (8 lvl kv kvs)
  let ?n = "cost (snd kv) + cost_dict kvs"
  let ?sep = "(if kvs = [] then [] else py '','' @ newline_indent lvl)"
  let ?rest' = "?sep @ iterencode_dict lvl kvs @ rest"
  from "8.prems" have wk: "unpaired (fst kv)" and wv: "well_formed (snd kv)"
    and wkvs: "well_formed_dict kvs" by simp_all
  have f: "follows ?rest'" by (simp add: follows_simps py_def)
  have "parse_value (cost (snd kv)) (iterencode lvl (snd kv) @ ?rest') = Some (snd kv, ?rest')"
    using wv f by (rule "8.IH"(1))
  then have pv: "parse_value ?n (iterencode lvl (snd kv) @ ?rest') = Some (snd kv, ?rest')"
    by (rule parse_mono(1) [rotated]) simp
  obtain c r where c: "iterencode lvl (snd kv) = c # r" "value_start c"
    using iterencode_head by blast
  have key: "scanstring (tl (encode_basestring_ascii (fst kv) @ py '': '' @ iterencode lvl (snd kv) @ ?rest'))
      = Some (fst kv, py '': '' @ iterencode lvl (snd kv) @ ?rest')"
    using scanstring_encoded [OF wk] by (simp add: encode_basestring_ascii_def)
  have q: "starts_with 34 (encode_basestring_ascii (fst kv) @ py '': '' @ iterencode lvl (snd kv) @ ?rest')"
    by (simp add: encode_basestring_ascii_def)
  have colon: "skip_ws (py '': '' @ iterencode lvl (snd kv) @ ?rest')
      = 58 # 32 # iterencode lvl (snd kv) @ ?rest'"
    by (simp add: py_def is_ws_def)
  have val: "skip_ws (32 # iterencode lvl (snd kv) @ ?rest') = iterencode lvl (snd kv) @ ?rest'"
    using c value_start_not_ws [OF c(2)] by (simp add: is_ws_def)
  show ?case
  proof (cases "kvs = []")
    case True
    have "skip_ws (newline_indent (lvl - 1) @ 125 # rest) = 125 # rest"
      by (simp add: skip_ws_indent is_ws_def)
    with pv True key q colon val show ?thesis
      by (simp add: parse_object.simps(2) py_def)
  next
    case False
    obtain r' where c': "iterencode_dict lvl kvs = 34 # r'"
      using iterencode_dict_head [OF False] by blast
    have skip: "skip_ws (newline_indent lvl @ iterencode_dict lvl kvs @ rest)
        = iterencode_dict lvl kvs @ rest"
      using c' by (simp add: skip_ws_indent is_ws_def)
    have "parse_object (cost_dict kvs) (iterencode_dict lvl kvs @ rest) = Some (kvs, rest)"
      using False wkvs by (rule "8.IH"(2))
    then have po: "parse_object ?n (iterencode_dict lvl kvs @ rest) = Some (kvs, rest)"
      by (rule parse_mono(3) [rotated]) simp
    from pv False key q colon val skip po show ?thesis
      by (simp add: parse_object.simps(2) py_def is_ws_def)
  qed
qed

subsection \<open>The whole text, and the stored result\<close>

lemma length_encoded_string: "2 \<le> length (encode_basestring_ascii s)"
  by (simp add: encode_basestring_ascii_def)

lemma length_float_repr: "2 \<le> length (float_repr x)"
  using length_dec_digits_pos by (cases x) (simp add: Suc_le_eq)

lemma cost_lt_length:
  "cost v < length (iterencode lvl v)"
  "cost_list vs < length (iterencode_list lvl vs)"
  "cost_dict kvs < length (iterencode_dict lvl kvs)"
proof (induction lvl v and lvl vs and lvl kvs
       rule: iterencode_iterencode_list_iterencode_dict.induct)
  case (1 lvl s)
  show ?case using length_encoded_string [of s] by simp
next
  case (2 lvl x)
  show ?case using length_float_repr [of x] by simp
next
  case (3 lvl vs)
  then show ?case by (cases "vs = []") (simp_all add: py_def newline_indent_def)
next
  case (4 lvl kvs)
  then show ?case by (cases "kvs = []") (simp_all add: py_def newline_indent_def)
next
  case (5 lvl)
  show ?case by (simp add: newline_indent_def)
next
  case (6 lvl v vs)
  then show ?case by simp
next
  case (7 lvl)
  show ?case by (simp add: newline_indent_def)
next
  case (8 lvl kv kvs)
  then show ?case by simp
qed

lemma loads_dumps: "well_formed v \<Longrightarrow> loads (dumps v) = Some v"
proof -
  assume wf: "well_formed v"
  obtain c r where c: "iterencode 0 v = c # r" "value_start c"
    using iterencode_head by blast
  have skip: "skip_ws (iterencode 0 v) = iterencode 0 v"
    using c value_start_not_ws [OF c(2)] by simp
  have "parse_value (cost v) (iterencode 0 v @ []) = Some (v, [])"
    using wf by (rule roundtrip(1)) (simp add: follows_simps)
  then have "parse_value (length (iterencode 0 v)) (iterencode 0 v @ []) = Some (v, [])"
    by (rule parse_mono(1) [rotated]) (simp add: less_imp_le cost_lt_length)
  then show ?thesis by (simp add: loads_def dumps_def skip)
qed

lemma unicode_text_py: "unicode_text (py s)"
proof -
  have "(of_char c :: nat) < 55296" for c
  proof -
    have "(of_char c :: nat) mod 256 < 256" by (rule mod_less_divisor) simp
    then have "(of_char c :: nat) < 256" by (simp only: of_char_mod_256)
    then show ?thesis by linarith
  qed
  then show ?thesis by (simp add: unicode_text_def py_def list_all_iff)
qed

lemma unicode_text_Nil: "unicode_text []"
  by (simp add: unicode_text_def)

lemma unicode_text_append: "unicode_text (a @ b) = (unicode_text a \<and> unicode_text b)"
  by (simp add: unicode_text_def)

lemma unicode_text_digits: "unicode_text (zero_pad k n)"
  using zero_pad_digits [of k n]
  by (auto simp: unicode_text_def list_all_iff is_digit_def)

lemma unicode_text_isoformat: "unicode_text (isoformat d)"
  by (simp add: isoformat_def unicode_text_append unicode_text_py unicode_text_digits
      unicode_text_Nil)

lemma unicode_text_model_name: "unicode_text (model_name m)"
  by (cases m) (simp_all add: unicode_text_py)

lemma merge_pairs_other: "\<not> is_high c \<Longrightarrow> merge_pairs (c # s) = c # merge_pairs s"
  by (cases s) simp_all

lemma merge_pairs_head:
  assumes "\<not> is_low l"
  shows "\<exists>x t. merge_pairs (l # s) = x # t \<and> \<not> is_low x"
proof (cases s)
  case Nil
  with assms show ?thesis by simp
next
  case (Cons d s')
  have "\<not> is_low (65536 + ((l - 55296) * 1024 + (d - 56320)))"
    by (simp add: is_low_def)
  with assms show ?thesis by (simp add: Cons)
qed

lemma merge_pairs_idem: "merge_pairs (merge_pairs s) = merge_pairs s"
proof (induction s rule: merge_pairs.induct)
  case (1 h l s)
  show ?case
  proof (cases "is_high h \<and> is_low l")
    case True
    have "\<not> is_high (65536 + ((h - 55296) * 1024 + (l - 56320)))"
      by (simp add: is_high_def)
    from merge_pairs_other [OF this] True "1.IH"(1) [OF True] show ?thesis by simp
  next
    case False
    then have m: "merge_pairs (h # l # s) = h # merge_pairs (l # s)"
      by (simp only: merge_pairs.simps if_False)
    note ih = "1.IH"(2) [OF False]
    show ?thesis
    proof (cases "is_high h")
      case True
      with False have "\<not> is_low l" by simp
      from merge_pairs_head [OF this] obtain x t
        where x: "merge_pairs (l # s) = x # t" "\<not> is_low x" by blast
      then have "merge_pairs (h # x # t) = h # merge_pairs (x # t)" by simp
      with ih show ?thesis by (simp only: m x(1))
    next
      case False
      from merge_pairs_other [OF this] ih show ?thesis by (simp only: m)
    qed
  qed
qed simp_all

lemma unpaired_merged: "is_str s \<Longrightarrow> unpaired (merge_pairs s)"
  by (simp add: unpaired_def is_str_merged merge_pairs_idem)

lemma encoded_merged:
  "encode_basestring_ascii (merge_pairs s) = encode_basestring_ascii s"
  by (simp add: encode_basestring_ascii_def merged_text)

lemma unicode_text_unpaired: "unicode_text s \<Longrightarrow> unpaired s"
proof (induction s)
  case Nil
  show ?case by (simp add: unpaired_def is_str_def)
next
  case (Cons c s)
  then have c: "c < 55296 \<or> (57343 < c \<and> c < 1114112)" and s: "unpaired s"
    by (simp_all add: unicode_text_def)
  from c have "\<not> is_high c" "c < 1114112" by (auto simp: is_high_def)
  with s merge_pairs_other [of c s] show ?case by (simp add: unpaired_def is_str_def)
qed

lemma unpaired_py: "unpaired (py s)"
  by (rule unicode_text_unpaired) (rule unicode_text_py)

lemma plain_relevances: "plain_repr (Decimal 0 [9, 5])" "plain_repr (Decimal 0 [8, 2])"
  by (simp_all add: plain_repr_def shortest_def dec_digits_zero)

lemma keys_distinct:
  "distinct [py ''title'', py ''content'', py ''relevance'', py ''source'']"
  "distinct [py ''query'', py ''model'', py ''timestamp'', py ''findings'']"
  by (simp_all add: py_def)

lemma well_formed_finding_dict:
  "unpaired (title f) \<Longrightarrow> unpaired (content f) \<Longrightarrow> plain_repr (relevance f) \<Longrightarrow>
   unpaired (source f) \<Longrightarrow> well_formed (finding_dict f)"
  using keys_distinct(1) by (simp add: finding_dict_def unpaired_py)

lemma well_formed_fixed_findings:
  "well_formed (finding_dict tiebreaker_finding)" "well_formed (finding_dict statistics_finding)"
  by (rule well_formed_finding_dict;
      simp add: tiebreaker_finding_def statistics_finding_def unpaired_py plain_relevances)+

lemma well_formed_new_result:
  "unpaired (query_text i) \<Longrightarrow> well_formed (result_dict (new_result i))"
  using keys_distinct(2)
  by (simp add: result_dict_def new_result_def unpaired_py unicode_text_isoformat
      unicode_text_model_name unicode_text_unpaired well_formed_fixed_findings)

lemma loads_dumps_new_result:
  "unpaired (query_text i) \<Longrightarrow>
   loads (dumps (result_dict (new_result i))) = Some (result_dict (new_result i))"
  by (rule loads_dumps) (rule well_formed_new_result)

lemma dumps_merged_query:
  "dumps (result_dict (new_result (i\<lparr>query_text := merge_pairs (query_text i)\<rparr>)))
     = dumps (result_dict (new_result i))"
  by (simp add: dumps_def result_dict_def new_result_def encoded_merged)

lemma loads_dumps_merged:
  assumes "is_str (query_text i)"
  shows "loads (dumps (result_dict (new_result i)))
           = Some (result_dict (new_result (i\<lparr>query_text := merge_pairs (query_text i)\<rparr>)))"
proof -
  have "unpaired (query_text (i\<lparr>query_text := merge_pairs (query_text i)\<rparr>))"
    using assms by (simp add: unpaired_merged)
  from loads_dumps_new_result [OF this] show ?thesis by (simp only: dumps_merged_query)
qed

subsection \<open>The concrete queries\<close>


lemma unicode_text_Cons:
  "unicode_text (c # s) = ((c < 55296 \<or> (57343 < c \<and> c < 1114112)) \<and> unicode_text s)"
  by (simp add: unicode_text_def)

lemma unpaired_quoted: "unpaired (query_text quoted_input)"
proof -
  have "unicode_text (query_text quoted_input)"
    by (simp add: quoted_input_def unicode_text_append unicode_text_Cons unicode_text_py)
  then show ?thesis by (rule unicode_text_unpaired)
qed

lemma quoted_query_text:
  \<open>encode_basestring_ascii (query_text quoted_input) =
     py ''"the '' @ [92] @ py ''"super'' @ [92] @ py ''" tiebreaker in Orl'' @ [92]
     @ py ''u00e9ans"''\<close>
  by (simp add: quoted_input_def encode_basestring_ascii_def escape_char_def u_escape_def
      hex_digit_def py_def)

lemma sample_model_text: \<open>encode_basestring_ascii (model_name Gpt_4o) = py ''"gpt-4o"''\<close>
  by (simp add: encode_basestring_ascii_def escape_char_def py_def)

lemma sample_timestamp_text:
  \<open>encode_basestring_ascii (isoformat sample_now) = py ''"2024-05-17T09:30:05.120034"''\<close>
  by (simp add: sample_timestamp) (simp add: encode_basestring_ascii_def escape_char_def py_def)

section \<open>Properties of the submit operation\<close>

text \<open>
  Claim C1, as the script has it: on an empty query the submit operation renders the
  warning "Please enter a research query." and does nothing else; in particular it
  neither builds nor stores a result, and it raises nothing.
\<close>

theorem submit_empty_query_warns:
  "query_text i = [] \<Longrightarrow>
   submit i st =
     \<lparr> rendered = [Warning (py ''Please enter a research query.'')], results = st,
       raised = None \<rparr>"
  by (simp add: submit_def py_not_def render_def)

theorem submit_empty_query_warns_witness:
  "query_text (sample_input\<lparr>query_text := []\<rparr>) = [] \<and>
   submit (sample_input\<lparr>query_text := []\<rparr>) None =
     \<lparr> rendered = [Warning (py ''Please enter a research query.'')], results = None,
       raised = None \<rparr>"
  using submit_empty_query_warns [of "sample_input\<lparr>query_text := []\<rparr>" None] by simp

text \<open>
  Claim C1 as stated also covers whitespace-only queries. \<^verbatim>\<open>not query\<close> is true for the
  empty string only: on a query of one space the script stores a result and renders no
  warning.
\<close>

theorem submit_whitespace_query_counterexample:
  "whitespace_only (py '' '') \<and>
   results (submit (sample_input\<lparr>query_text := py '' ''\<rparr>) None)
     = Some (new_result (sample_input\<lparr>query_text := py '' ''\<rparr>)) \<and>
   raised (submit (sample_input\<lparr>query_text := py '' ''\<rparr>) None) = None \<and>
   Warning (py ''Please enter a research query.'')
     \<notin> set (rendered (submit (sample_input\<lparr>query_text := py '' ''\<rparr>) None))"
  by (simp add: whitespace_only_def isspace_def py_def submit_def py_not_def sample_input_def
      try_except_Exception_def research_def store_results_def st_call_def render_def
      skip_def raise_def and_then_def Let_def run_steps.simps(2)
      display_results_def new_result_def show_finding_def export_option_def)

text \<open>
  Claim C2: on a non-empty query (when the assignment does not raise) the submit
  operation stores a result whose findings are exactly the two fixed literals, titled
  "Tennis Tiebreaker Regulations" and "Match Statistics Analysis" in that order, and
  whose query field is the input string itself.
\<close>

theorem submit_nonempty_query_result:
  "query_text i \<noteq> [] \<Longrightarrow> raises i StoreResults = None \<Longrightarrow>
   \<exists>r. results (submit i st) = Some r
     \<and> length (findings r) = 2
     \<and> findings r = [tiebreaker_finding, statistics_finding]
     \<and> map title (findings r)
         = [py ''Tennis Tiebreaker Regulations'', py ''Match Statistics Analysis'']
     \<and> query r = query_text i"
  by (simp add: submit_results new_result_def tiebreaker_finding_def statistics_finding_def)

theorem submit_nonempty_query_result_witness:
  "query_text sample_input \<noteq> [] \<and> raises sample_input StoreResults = None \<and>
   (\<exists>r. results (submit sample_input None) = Some r
     \<and> length (findings r) = 2
     \<and> findings r = [tiebreaker_finding, statistics_finding]
     \<and> map title (findings r)
         = [py ''Tennis Tiebreaker Regulations'', py ''Match Statistics Analysis'']
     \<and> query r = query_text sample_input)"
  using submit_nonempty_query_result [of sample_input None]
  by (simp add: sample_input_def py_def)

text \<open>
  Claim C3: two submissions that differ only in model, temperature, max_tokens,
  search_depth, include_citations, domains and date_range leave results with the same
  findings.
\<close>

theorem cosmetic_controls_keep_findings:
  "map_option findings
     (results (submit (i\<lparr>model_choice := m, temperature := t, max_tokens := k,
                         search_depth := d, include_citations := c, domains := ds,
                         date_range := dr\<rparr>) st))
   = map_option findings (results (submit i st))"
  by (simp add: submit_results new_result_def)

text \<open>
  Claim C8: for the query "tiebreaker rules" and the model gpt-4o the stored result
  contains a finding titled "Tennis Tiebreaker Regulations" whose relevance is 0.95.
\<close>

theorem tiebreaker_rules_scenario:
  "query_text i = py ''tiebreaker rules'' \<Longrightarrow> model_choice i = Gpt_4o \<Longrightarrow>
   raises i StoreResults = None \<Longrightarrow>
   \<exists>r f. results (submit i st) = Some r \<and> model r = py ''gpt-4o''
     \<and> f \<in> set (findings r)
     \<and> title f = py ''Tennis Tiebreaker Regulations''
     \<and> relevance f = Decimal 0 [9, 5] \<and> float_value (relevance f) = 95 / 100"
proof -
  assume q: "query_text i = py ''tiebreaker rules''" and m: "model_choice i = Gpt_4o"
    and ok: "raises i StoreResults = None"
  from q have "query_text i \<noteq> []" by (simp add: py_def)
  with ok have "results (submit i st) = Some (new_result i)"
    by (simp add: submit_results)
  moreover have "model (new_result i) = py ''gpt-4o''"
    using m by (simp add: new_result_def)
  moreover have "tiebreaker_finding \<in> set (findings (new_result i))"
    by (simp add: new_result_def)
  moreover have "title tiebreaker_finding = py ''Tennis Tiebreaker Regulations''"
    and "relevance tiebreaker_finding = Decimal 0 [9, 5]"
    and "float_value (relevance tiebreaker_finding) = 95 / 100"
    by (simp_all add: tiebreaker_finding_def)
  ultimately show ?thesis by blast
qed

theorem tiebreaker_rules_scenario_witness:
  "query_text sample_input = py ''tiebreaker rules'' \<and> model_choice sample_input = Gpt_4o \<and>
   raises sample_input StoreResults = None \<and>
   (\<exists>r f. results (submit sample_input None) = Some r \<and> model r = py ''gpt-4o''
     \<and> f \<in> set (findings r)
     \<and> title f = py ''Tennis Tiebreaker Regulations''
     \<and> relevance f = Decimal 0 [9, 5] \<and> float_value (relevance f) = 95 / 100)"
  using tiebreaker_rules_scenario [of sample_input None]
  by (simp add: sample_input_def)

text \<open>
  Claim C10: a click with an empty query leaves the stored result as it was, whatever it
  was: the run writes no session state.
\<close>

theorem empty_query_click_keeps_session:
  "start_research i \<Longrightarrow> query_text i = [] \<Longrightarrow> results (page i session) = session"
  by (rule page_keeps) (simp add: keeps_results_def submit_results)

theorem empty_query_click_keeps_session_witness:
  "start_research (sample_input\<lparr>query_text := []\<rparr>) \<and>
   query_text (sample_input\<lparr>query_text := []\<rparr>) = [] \<and>
   results (page (sample_input\<lparr>query_text := []\<rparr>) (Some (new_result sample_input)))
     = Some (new_result sample_input)"
  using empty_query_click_keeps_session
          [of "sample_input\<lparr>query_text := []\<rparr>" "Some (new_result sample_input)"]
  by (simp add: sample_input_def)

section \<open>The page as a state machine\<close>

text \<open>
  Claim C6: a valid submit leaves the page in ResultShown with the new result stored,
  from Idle as well as from ResultShown (where it replaces the old one), and no sequence
  of runs leads from ResultShown back to Idle.
\<close>

theorem page_state_machine:
  "(valid_submit i \<longrightarrow>
      results (page i session) = Some (new_result i)
      \<and> state_of (results (page i session)) = ResultShown)
   \<and> (state_of session = ResultShown \<longrightarrow> state_of (session_after js session) = ResultShown)"
proof -
  have "state_of (session_after js session) = ResultShown" if "state_of session = ResultShown"
  proof -
    from that have "session \<noteq> None" by (cases session) simp_all
    then have "session_after js session \<noteq> None" by (rule session_after_never_clears)
    then show ?thesis by (cases "session_after js session") simp_all
  qed
  then show ?thesis by (simp add: page_valid_submit)
qed

theorem page_state_machine_witness:
  "valid_submit sample_input
   \<and> state_of None = Idle
   \<and> results (page sample_input None) = Some (new_result sample_input)
   \<and> state_of (results (page sample_input None)) = ResultShown
   \<and> state_of (Some (new_result (sample_input\<lparr>query_text := py ''serve''\<rparr>))) = ResultShown
   \<and> results (page sample_input (Some (new_result (sample_input\<lparr>query_text := py ''serve''\<rparr>))))
       = Some (new_result sample_input)
   \<and> state_of (session_after
        [sample_input\<lparr>query_text := []\<rparr>, sample_input\<lparr>start_research := False\<rparr>,
         sample_input\<lparr>export_clicked := True\<rparr>]
        (Some (new_result (sample_input\<lparr>query_text := py ''serve''\<rparr>)))) = ResultShown"
  using page_state_machine [of sample_input None "[]"]
    page_state_machine [of sample_input
     "Some (new_result (sample_input\<lparr>query_text := py ''serve''\<rparr>))"
     "[sample_input\<lparr>query_text := []\<rparr>, sample_input\<lparr>start_research := False\<rparr>,
       sample_input\<lparr>export_clicked := True\<rparr>]"]
  by (simp add: valid_submit_def sample_input_def py_not_def py_def caught_def)

section \<open>Exceptions and the API key\<close>

text \<open>
  Claim C5, for the exceptions the handler catches: when a call made while the result is
  constructed or rendered raises an instance of \<^verbatim>\<open>Exception\<close> (the class the handler
  names), the run reports it inline as "Error during research: ..." and goes on to the
  end of the script: the footer is rendered, nothing is raised out of the run, and a
  later valid submit works as usual.
\<close>

theorem research_exception_is_reported:
  assumes "start_research i" and "query_text i \<noteq> []"
    and "caught (raises i EnvironGet)" and "caught (raises i KeyWarning)"
    and "first_raise i (research_sites i) = Some e" and "is_Exception e"
  shows "raised (page i session) = None
    \<and> (\<exists>above. rendered (page i session)
          = above @ [Error (py ''Error during research: '' @ str e)] @ footer)
    \<and> (valid_submit j \<longrightarrow> results (page j (results (page i session))) = Some (new_result j))"
proof -
  have init: "raised (init_openai i session) = None"
    using assms(3,4) by (rule init_openai_caught)
  have r: "raised (research i session) = Some e"
    using assms(5) by (simp add: raised_research)
  have sub: "raised ((if start_research i then submit i else skip) session) = None"
    using assms(1) submit_handles(1) [OF assms(2) r assms(6)] by simp
  have "rendered (page i session) =
      (rendered (init_openai i session) @ heading @ rendered (research i session))
      @ [Error (py ''Error during research: '' @ str e)] @ footer"
    using assms(1) page_completes(2) [OF init sub] submit_handles(2) [OF assms(2) r assms(6)]
    by simp
  then have "\<exists>above. rendered (page i session)
          = above @ [Error (py ''Error during research: '' @ str e)] @ footer"
    by blast
  with page_completes(1) [OF init sub] show ?thesis
    by (simp add: page_valid_submit)
qed

theorem research_exception_is_reported_witness:
  "start_research failing_input \<and> query_text failing_input \<noteq> []
   \<and> caught (raises failing_input EnvironGet) \<and> caught (raises failing_input KeyWarning)
   \<and> first_raise failing_input (research_sites failing_input)
        = Some (Exn True (py ''connection lost''))
   \<and> is_Exception (Exn True (py ''connection lost''))
   \<and> raised (page failing_input None) = None
   \<and> (\<exists>above. rendered (page failing_input None)
          = above @ [Error (py ''Error during research: '' @ str (Exn True (py ''connection lost'')))]
            @ footer)
   \<and> valid_submit sample_input
   \<and> results (page sample_input (results (page failing_input None)))
        = Some (new_result sample_input)"
proof -
  have h: "start_research failing_input" "query_text failing_input \<noteq> []"
    "caught (raises failing_input EnvironGet)" "caught (raises failing_input KeyWarning)"
    "first_raise failing_input (research_sites failing_input)
        = Some (Exn True (py ''connection lost''))"
    "is_Exception (Exn True (py ''connection lost''))"
    by (simp_all add: failing_input_def sample_input_def py_def caught_def research_sites_def)
  have v: "valid_submit sample_input"
    by (simp add: valid_submit_def sample_input_def py_not_def py_def caught_def)
  from research_exception_is_reported [OF h, of None sample_input] h v show ?thesis
    by simp
qed

text \<open>
  Claim C5 as stated covers any exception. The handler is \<^verbatim>\<open>except Exception\<close>: an
  exception that is not an instance of \<^verbatim>\<open>Exception\<close> passes it. When \<^verbatim>\<open>st.success\<close>
  raises such an exception in a submit of a non-empty query, the exception leaves the
  run: no error message is rendered, and the script stops before the footer.
\<close>

theorem research_exception_escapes_counterexample:
  "start_research interrupted_input \<and> query_text interrupted_input \<noteq> []
   \<and> caught (raises interrupted_input EnvironGet) \<and> caught (raises interrupted_input KeyWarning)
   \<and> first_raise interrupted_input (research_sites interrupted_input)
        = Some (Exn False (py ''interrupted''))
   \<and> raised (page interrupted_input None) = Some (Exn False (py ''interrupted''))
   \<and> rendered (page interrupted_input None) =
        Warning (py ''OpenAI API key not found. Some features may be limited.'') # heading
   \<and> Error (py ''Error during research: interrupted'')
        \<notin> set (rendered (page interrupted_input None))
   \<and> Markdown (py ''XII-OS Deep Research | Tennis Tiebreaker System'')
        \<notin> set (rendered (page interrupted_input None))"
  by (simp add: page_def init_openai_def key_missing_def interrupted_input_def sample_input_def
      py_not_def st_call_def render_def skip_def raise_def and_then_def Let_def run_steps.simps(2)
      try_except_Exception_def submit_def research_def store_results_def heading_def py_def
      caught_def research_sites_def)

text \<open>
  Claim C9: the API key is read at start-up; when it is absent (and the two start-up
  calls raise nothing) the start-up block renders the warning and the script goes on
  with the title. The key is used for nothing else: two runs that differ only in the key
  leave the same stored result, raise the same, and render the same page from the title
  downwards. The script makes no network call at all, with or without a key.
\<close>

theorem api_key_only_warns:
  "(key_missing (openai_key i) \<and> raises i EnvironGet = None \<and> raises i KeyWarning = None
      \<longrightarrow> init_openai i st =
            \<lparr> rendered = [Warning (py ''OpenAI API key not found. Some features may be limited.'')],
              results = st, raised = None \<rparr>
          \<and> take 2 (rendered (page i st))
              = [Warning (py ''OpenAI API key not found. Some features may be limited.''),
                 Title (py ''XII-OS Deep Research'')])
   \<and> (caught (raises i KeyWarning)
      \<longrightarrow> results (page (i\<lparr>openai_key := k\<rparr>) st) = results (page i st)
        \<and> raised (page (i\<lparr>openai_key := k\<rparr>) st) = raised (page i st)
        \<and> below_startup (rendered (page (i\<lparr>openai_key := k\<rparr>) st))
            = below_startup (rendered (page i st)))"
proof (intro conjI impI)
  assume a: "key_missing (openai_key i) \<and> raises i EnvironGet = None \<and> raises i KeyWarning = None"
  then show init: "init_openai i st =
            \<lparr> rendered = [Warning (py ''OpenAI API key not found. Some features may be limited.'')],
              results = st, raised = None \<rparr>"
    by (simp add: init_openai_def try_except_Exception_def st_call_def render_def)
  obtain els where "rendered (run_steps [run_steps (map render heading),
                   (if start_research i then submit i else skip),
                   run_steps (map render footer)] st) = Title (py ''XII-OS Deep Research'') # els"
    using rendered_from_heading by blast
  then show "take 2 (rendered (page i st))
              = [Warning (py ''OpenAI API key not found. Some features may be limited.''),
                 Title (py ''XII-OS Deep Research'')]"
    by (simp add: page_split init rendered_and_then)
next
  assume c: "caught (raises i KeyWarning)"
  let ?i = "i\<lparr>openai_key := k\<rparr>"
  let ?rest = "\<lambda>j. run_steps [run_steps (map render heading),
                   (if start_research j then submit j else skip),
                   run_steps (map render footer)]"
  have c': "caught (raises ?i KeyWarning)" using c by simp
  have rest: "?rest ?i = ?rest i" by (simp add: key_not_used)
  have keep: "results (init_openai j st) = st" for j
    using keeps_init_openai [of j] by (simp add: keeps_results_def)
  have raised_eq: "raised (init_openai ?i st) = raised (init_openai i st)"
    by (simp add: init_openai_cases(1) [OF c'] init_openai_cases(1) [OF c])
  obtain els where els: "rendered (?rest i st) = Title (py ''XII-OS Deep Research'') # els"
    using rendered_from_heading by blast
  show "results (page ?i st) = results (page i st)"
    using raised_eq
    by (simp only: page_split Let_def rest)
       (cases "raised (init_openai i st)"; simp add: results_and_then keep)
  show "raised (page ?i st) = raised (page i st)"
    using raised_eq
    by (simp only: page_split Let_def rest)
       (cases "raised (init_openai i st)"; simp add: raised_and_then keep)
  show "below_startup (rendered (page ?i st)) = below_startup (rendered (page i st))"
  proof (cases "raised (init_openai i st)")
    case None
    with raised_eq show ?thesis
      by (simp only: page_split Let_def rest)
         (simp add: rendered_and_then keep els init_openai_cases(2) [OF c']
            init_openai_cases(2) [OF c])
  next
    case (Some e)
    then have e: "raises i EnvironGet = Some e" "\<not> is_Exception e"
      using init_openai_cases(1) [OF c, of st] by (auto split: option.splits if_splits)
    then have e': "raises ?i EnvironGet = Some e" by simp
    from Some raised_eq show ?thesis
      by (simp only: page_split Let_def rest)
         (simp add: init_openai_cases(3) [OF c e] init_openai_cases(3) [OF c' e' e(2)])
  qed
qed

theorem api_key_only_warns_witness:
  "key_missing (openai_key sample_input) \<and> raises sample_input EnvironGet = None
   \<and> raises sample_input KeyWarning = None
   \<and> init_openai sample_input None =
        \<lparr> rendered = [Warning (py ''OpenAI API key not found. Some features may be limited.'')],
          results = None, raised = None \<rparr>
   \<and> take 2 (rendered (page sample_input None))
        = [Warning (py ''OpenAI API key not found. Some features may be limited.''),
           Title (py ''XII-OS Deep Research'')]
   \<and> caught (raises sample_input KeyWarning)
   \<and> results (page (sample_input\<lparr>openai_key := Some (py ''sk-test'')\<rparr>) None)
        = results (page sample_input None)
   \<and> raised (page (sample_input\<lparr>openai_key := Some (py ''sk-test'')\<rparr>) None)
        = raised (page sample_input None)
   \<and> below_startup (rendered (page (sample_input\<lparr>openai_key := Some (py ''sk-test'')\<rparr>) None))
        = below_startup (rendered (page sample_input None))"
  using api_key_only_warns [of sample_input None "Some (py ''sk-test'')"]
  by (simp add: sample_input_def key_missing_def caught_def)

section \<open>The JSON export\<close>

text \<open>
  Claim C7, for the run that offers the export: a valid submit in which nothing raises
  renders the download button, with the file name "research_results.json", the content
  type "application/json" and the stored result written by \<^verbatim>\<open>json.dumps\<close> as content; the
  export step does so for whatever result is stored. The content is JSON: the decoder
  reads it back as an object with the keys query, model, timestamp and findings, whose
  values are those of the result (the query with its surrogate pairs read as the code
  points they stand for). It is laid out with two spaces of indentation per level, the
  findings an array of objects with the keys title, content, relevance and source. Every
  result a sequence of runs can store (the clock giving valid datetimes) has an ISO 8601
  timestamp.
\<close>

theorem export_download:
  \<open>(valid_submit i \<and> first_raise i (research_sites i) = None \<longrightarrow>
      DownloadButton (py ''Export Results as JSON'') (dumps (result_dict (new_result i)))
        (py ''research_results.json'') (py ''application/json'')
      \<in> set (rendered (page i st)))
   \<and> (raises i ExportButton = None \<longrightarrow>
      rendered (export_option i (Some r)) =
        DownloadButton (py ''Export Results as JSON'') (dumps (result_dict r))
          (py ''research_results.json'') (py ''application/json'')
        # (if export_clicked i \<and> raises i ShowBalloons = None then [Balloons] else []))
   \<and> (is_str (query_text i) \<longrightarrow>
      loads (dumps (result_dict (new_result i))) =
        Some (PDict [(py ''query'', PStr (merge_pairs (query_text i))),
                     (py ''model'', PStr (model_name (model_choice i))),
                     (py ''timestamp'', PStr (isoformat (now i))),
                     (py ''findings'', PList [finding_dict tiebreaker_finding,
                                             finding_dict statistics_finding])]))
   \<and> dumps (result_dict r) =
       py ''{'' @ [10]
       @ py ''  "query": '' @ encode_basestring_ascii (query r) @ py '','' @ [10]
       @ py ''  "model": '' @ encode_basestring_ascii (model r) @ py '','' @ [10]
       @ py ''  "timestamp": '' @ encode_basestring_ascii (timestamp r) @ py '','' @ [10]
       @ py ''  "findings": '' @ iterencode 1 (PList (map finding_dict (findings r))) @ [10]
       @ py ''}''
   \<and> iterencode 1 (PList (map finding_dict [f, g])) =
       py ''['' @ [10]
       @ py ''    {'' @ [10]
       @ py ''      "title": '' @ encode_basestring_ascii (title f) @ py '','' @ [10]
       @ py ''      "content": '' @ encode_basestring_ascii (content f) @ py '','' @ [10]
       @ py ''      "relevance": '' @ float_repr (relevance f) @ py '','' @ [10]
       @ py ''      "source": '' @ encode_basestring_ascii (source f) @ [10]
       @ py ''    },'' @ [10]
       @ py ''    {'' @ [10]
       @ py ''      "title": '' @ encode_basestring_ascii (title g) @ py '','' @ [10]
       @ py ''      "content": '' @ encode_basestring_ascii (content g) @ py '','' @ [10]
       @ py ''      "relevance": '' @ float_repr (relevance g) @ py '','' @ [10]
       @ py ''      "source": '' @ encode_basestring_ascii (source g) @ [10]
       @ py ''    }'' @ [10]
       @ py ''  ]''
   \<and> (session_after js None = Some r' \<and> list_all (\<lambda>j. valid_datetime (now j)) js \<longrightarrow>
      iso8601 (timestamp r'))\<close>
proof (intro conjI impI)
  assume "valid_submit i \<and> first_raise i (research_sites i) = None"
  then show "DownloadButton (py ''Export Results as JSON'') (dumps (result_dict (new_result i)))
        (py ''research_results.json'') (py ''application/json'')
      \<in> set (rendered (page i st))"
    using page_offers_download [of i st] by (elim conjE)
next
  assume "raises i ExportButton = None"
  then show "rendered (export_option i (Some r)) =
        DownloadButton (py ''Export Results as JSON'') (dumps (result_dict r))
          (py ''research_results.json'') (py ''application/json'')
        # (if export_clicked i \<and> raises i ShowBalloons = None then [Balloons] else [])"
    by (rule rendered_export_option)
next
  assume "is_str (query_text i)"
  from loads_dumps_merged [OF this]
  show "loads (dumps (result_dict (new_result i))) =
        Some (PDict [(py ''query'', PStr (merge_pairs (query_text i))),
                     (py ''model'', PStr (model_name (model_choice i))),
                     (py ''timestamp'', PStr (isoformat (now i))),
                     (py ''findings'', PList [finding_dict tiebreaker_finding,
                                             finding_dict statistics_finding])])"
    by (simp add: result_dict_def new_result_def)
next
  assume "session_after js None = Some r' \<and> list_all (\<lambda>j. valid_datetime (now j)) js"
  then show "iso8601 (timestamp r')"
    using stored_timestamp_iso [of js r'] by (elim conjE)
qed (rule dumps_result_layout findings_layout)+

theorem export_download_witness:
  \<open>valid_submit quoted_input \<and> first_raise quoted_input (research_sites quoted_input) = None
   \<and> DownloadButton (py ''Export Results as JSON'') (dumps (result_dict (new_result quoted_input)))
        (py ''research_results.json'') (py ''application/json'')
      \<in> set (rendered (page quoted_input None))
   \<and> raises quoted_input ExportButton = None
   \<and> rendered (export_option quoted_input (Some (new_result quoted_input))) =
        [DownloadButton (py ''Export Results as JSON'') (dumps (result_dict (new_result quoted_input)))
          (py ''research_results.json'') (py ''application/json'')]
   \<and> is_str (query_text quoted_input)
   \<and> loads (dumps (result_dict (new_result quoted_input)))
        = Some (result_dict (new_result quoted_input))
   \<and> dumps (result_dict (new_result quoted_input)) =
       py ''{'' @ [10]
       @ py ''  "query": "the '' @ [92] @ py ''"super'' @ [92] @ py ''" tiebreaker in Orl''
         @ [92] @ py ''u00e9ans",'' @ [10]
       @ py ''  "model": "gpt-4o",'' @ [10]
       @ py ''  "timestamp": "2024-05-17T09:30:05.120034",'' @ [10]
       @ py ''  "findings": ''
         @ iterencode 1 (PList (map finding_dict [tiebreaker_finding, statistics_finding]))
         @ [10]
       @ py ''}''
   \<and> session_after [quoted_input] None = Some (new_result quoted_input)
   \<and> list_all (\<lambda>j. valid_datetime (now j)) [quoted_input]
   \<and> timestamp (new_result quoted_input) = py ''2024-05-17T09:30:05.120034''
   \<and> iso8601 (timestamp (new_result quoted_input))\<close>
proof -
  have v: "valid_submit quoted_input"
    by (simp add: valid_submit_def quoted_input_def sample_input_def py_not_def py_def caught_def)
  have n: "first_raise quoted_input (research_sites quoted_input) = None"
    "raises quoted_input ExportButton = None" "\<not> export_clicked quoted_input"
    by (simp_all add: quoted_input_def sample_input_def research_sites_def)
  have u: "is_str (query_text quoted_input)" "merge_pairs (query_text quoted_input) = query_text quoted_input"
    using unpaired_quoted by (simp_all add: unpaired_def)
  have s: "session_after [quoted_input] None = Some (new_result quoted_input)"
    using v by (simp add: page_valid_submit)
  have d: "list_all (\<lambda>j. valid_datetime (now j)) [quoted_input]"
    by (simp add: quoted_input_def sample_input_def sample_now_def valid_datetime_def)
  have t: "timestamp (new_result quoted_input) = py ''2024-05-17T09:30:05.120034''"
    by (simp add: new_result_def quoted_input_def sample_input_def sample_timestamp)
  have fields: "query (new_result quoted_input) = query_text quoted_input"
    "model (new_result quoted_input) = model_name Gpt_4o"
    "timestamp (new_result quoted_input) = isoformat sample_now"
    "findings (new_result quoted_input) = [tiebreaker_finding, statistics_finding]"
    by (simp_all add: new_result_def quoted_input_def sample_input_def)
  note th = export_download [of quoted_input None "new_result quoted_input"
      tiebreaker_finding statistics_finding "[quoted_input]" "new_result quoted_input"]
  from th have c1: "DownloadButton (py ''Export Results as JSON'')
        (dumps (result_dict (new_result quoted_input)))
        (py ''research_results.json'') (py ''application/json'')
      \<in> set (rendered (page quoted_input None))"
    using v n(1) by (elim conjE) (rule mp, assumption, rule conjI)
  from th have "rendered (export_option quoted_input (Some (new_result quoted_input))) =
        DownloadButton (py ''Export Results as JSON'') (dumps (result_dict (new_result quoted_input)))
          (py ''research_results.json'') (py ''application/json'')
        # (if export_clicked quoted_input \<and> raises quoted_input ShowBalloons = None
           then [Balloons] else [])"
    using n(2) by (elim conjE) (rule mp, assumption, assumption)
  with n(3) have c2: "rendered (export_option quoted_input (Some (new_result quoted_input))) =
        [DownloadButton (py ''Export Results as JSON'') (dumps (result_dict (new_result quoted_input)))
          (py ''research_results.json'') (py ''application/json'')]"
    by simp
  from th have "loads (dumps (result_dict (new_result quoted_input))) =
        Some (PDict [(py ''query'', PStr (merge_pairs (query_text quoted_input))),
                     (py ''model'', PStr (model_name (model_choice quoted_input))),
                     (py ''timestamp'', PStr (isoformat (now quoted_input))),
                     (py ''findings'', PList [finding_dict tiebreaker_finding,
                                             finding_dict statistics_finding])])"
    using u(1) by (elim conjE) (rule mp, assumption, assumption)
  then have c3: "loads (dumps (result_dict (new_result quoted_input)))
        = Some (result_dict (new_result quoted_input))"
    by (simp add: u(2) result_dict_def new_result_def)
  from th have \<open>dumps (result_dict (new_result quoted_input)) =
       py ''{'' @ [10]
       @ py ''  "query": '' @ encode_basestring_ascii (query (new_result quoted_input))
         @ py '','' @ [10]
       @ py ''  "model": '' @ encode_basestring_ascii (model (new_result quoted_input))
         @ py '','' @ [10]
       @ py ''  "timestamp": '' @ encode_basestring_ascii (timestamp (new_result quoted_input))
         @ py '','' @ [10]
       @ py ''  "findings": ''
         @ iterencode 1 (PList (map finding_dict (findings (new_result quoted_input)))) @ [10]
       @ py ''}''\<close>
    by (elim conjE)
  then have c4: \<open>dumps (result_dict (new_result quoted_input)) =
       py ''{'' @ [10]
       @ py ''  "query": "the '' @ [92] @ py ''"super'' @ [92] @ py ''" tiebreaker in Orl''
         @ [92] @ py ''u00e9ans",'' @ [10]
       @ py ''  "model": "gpt-4o",'' @ [10]
       @ py ''  "timestamp": "2024-05-17T09:30:05.120034",'' @ [10]
       @ py ''  "findings": ''
         @ iterencode 1 (PList (map finding_dict [tiebreaker_finding, statistics_finding]))
         @ [10]
       @ py ''}''\<close>
    by (simp only: fields quoted_query_text sample_model_text sample_timestamp_text)
       (simp add: py_def)
  from th have c5: "iso8601 (timestamp (new_result quoted_input))"
    using s d by (elim conjE) (rule mp, assumption, rule conjI)
  from v n(1,2) c1 c2 u(1) c3 c4 s d t c5 show ?thesis
    by (intro conjI)
qed

text \<open>
  Claim C7 as stated offers the download whenever a result exists. The download button
  is part of the handler of the "Start Research" button: a run in which that button
  reports no click keeps the stored result and renders no download button.
\<close>

theorem export_not_offered_counterexample:
  "results (page idle_input (Some (new_result sample_input))) = Some (new_result sample_input)
   \<and> raised (page idle_input (Some (new_result sample_input))) = None
   \<and> rendered (page idle_input (Some (new_result sample_input))) =
        Warning (py ''OpenAI API key not found. Some features may be limited.'') # heading @ footer
   \<and> filter is_download (rendered (page idle_input (Some (new_result sample_input)))) = []"
  by (simp add: page_def init_openai_def key_missing_def idle_input_def sample_input_def
      py_not_def st_call_def render_def skip_def raise_def and_then_def Let_def run_steps.simps(2)
      try_except_Exception_def heading_def footer_def py_def)

section \<open>Reading the export back\<close>




end
